theory Spec2Isabelle
  imports Main "HOL-Library.Sublist"
begin

section \<open>The vLLM PR 31607 patch script: model\<close>

text \<open>
  A shallow embedding of \<^verbatim>\<open>patches/apply-vllm-pr31607.py\<close>. The script has four patch
  functions, one per target file, and a \<^verbatim>\<open>main\<close> that runs them in order and turns their
  boolean results into an exit status. Every function of the script is modelled as a
  function on an explicit world (file system, trace of performed reads and writes,
  lines printed); an exception raised by \<^verbatim>\<open>open\<close> is the \<open>Inl\<close> branch of the result.
\<close>

subsection \<open>Python string operations\<close>

text \<open>\<^verbatim>\<open>sub in s\<close> on \<^verbatim>\<open>str\<close>: \<open>sub\<close> occurs in \<open>s\<close> as a contiguous substring.\<close>

fun contains :: "string \<Rightarrow> string \<Rightarrow> bool" where
  "contains sub [] = (sub = [])"
| "contains sub (c # cs) = (prefix sub (c # cs) \<or> contains sub cs)"

text \<open>
  \<^verbatim>\<open>s.replace(old, new)\<close>: the occurrences of \<open>old\<close> are found scanning from the left,
  never overlapping, and the text of a replacement is not scanned again. For the empty
  \<open>old\<close> Python puts \<open>new\<close> before every character and at the end.
\<close>

function replace_from :: "string \<Rightarrow> string \<Rightarrow> string \<Rightarrow> string" where
  "replace_from old new [] = []"
| "replace_from old new (c # cs) =
     (if prefix old (c # cs) then new @ replace_from old new (drop (length old - 1) cs)
      else c # replace_from old new cs)"
  by pat_completeness auto
termination
  by (relation "measure (\<lambda>(old, new, s). length s)") auto

definition replace :: "string \<Rightarrow> string \<Rightarrow> string \<Rightarrow> string" where
  "replace old new s =
     (if old = [] then new @ concat (map (\<lambda>c. c # new) s) else replace_from old new s)"

datatype error =
    OSError string              \<comment> \<open>raised by \<^verbatim>\<open>open\<close>: the path could not be opened\<close>
  | UnicodeDecodeError string   \<comment> \<open>raised by \<^verbatim>\<open>f.read()\<close>: the bytes of the file are not text\<close>
  | ValueError                  \<comment> \<open>\<^verbatim>\<open>str.split\<close> with an empty separator\<close>
  | IndexError                  \<comment> \<open>list index out of range\<close>

text \<open>
  \<^verbatim>\<open>s.split(sep)\<close> with an explicit separator: the pieces between the occurrences of
  \<open>sep\<close>, found from the left without overlap; an empty separator raises.
\<close>

function split_from :: "string \<Rightarrow> string \<Rightarrow> string \<Rightarrow> string list" where
  "split_from sep acc [] = [rev acc]"
| "split_from sep acc (c # cs) =
     (if prefix sep (c # cs) then rev acc # split_from sep [] (drop (length sep - 1) cs)
      else split_from sep (c # acc) cs)"
  by pat_completeness auto
termination
  by (relation "measure (\<lambda>(sep, acc, s). length s)") auto

definition split :: "string \<Rightarrow> string \<Rightarrow> error + string list" where
  "split sep s = (if sep = [] then Inl ValueError else Inr (split_from sep [] s))"

text \<open>\<^verbatim>\<open>xs[i]\<close> on a list: a negative index counts from the end, out of range raises.\<close>

definition index :: "'a list \<Rightarrow> int \<Rightarrow> error + 'a" where
  "index xs i =
     (if 0 \<le> i \<and> i < int (length xs) then Inr (xs ! nat i)
      else if i < 0 \<and> - int (length xs) \<le> i then Inr (xs ! nat (int (length xs) + i))
      else Inl IndexError)"

text \<open>\<^verbatim>\<open>sep.join(xs)\<close>.\<close>

fun join :: "string \<Rightarrow> string list \<Rightarrow> string" where
  "join sep [] = []"
| "join sep [x] = x"
| "join sep (x # y # ys) = x @ sep @ join sep (y # ys)"

text \<open>
  The \<^verbatim>\<open>re\<close> module, for the patterns the script uses: ordinary characters and
  backslash-escaped punctuation, which match themselves. \<open>re_plain\<close> says that a pattern
  is of this kind, \<open>re_literal\<close> is the text it matches. On such a pattern
  \<^verbatim>\<open>re.search\<close> is a substring test and \<^verbatim>\<open>re.sub\<close> with a replacement free of backslashes
  replaces the occurrences from the left without overlap, as \<^verbatim>\<open>str.replace\<close> does.
\<close>

definition re_special :: "char list" where
  "re_special = ''.^$*+?{}[]|()''"

definition alnum :: "char \<Rightarrow> bool" where
  "alnum c = (c \<in> set ''abcdefghijklmnopqrstuvwxyzABCDEFGHIJKLMNOPQRSTUVWXYZ0123456789'')"

fun re_plain :: "string \<Rightarrow> bool" where
  "re_plain [] = True"
| "re_plain [c] = (c \<noteq> CHR 0x5C \<and> c \<notin> set re_special)"
| "re_plain (c # d # cs) =
     (if c = CHR 0x5C then \<not> alnum d \<and> re_plain cs
      else c \<notin> set re_special \<and> re_plain (d # cs))"

fun re_literal :: "string \<Rightarrow> string" where
  "re_literal [] = []"
| "re_literal [c] = [c]"
| "re_literal (c # d # cs) =
     (if c = CHR 0x5C then d # re_literal cs else c # re_literal (d # cs))"

definition re_search :: "string \<Rightarrow> string \<Rightarrow> bool" where
  "re_search pattern s = contains (re_literal pattern) s"

definition re_sub :: "string \<Rightarrow> string \<Rightarrow> string \<Rightarrow> string" where
  "re_sub pattern repl s = replace (re_literal pattern) repl s"

text \<open>
  A file opened with \<^verbatim>\<open>open(p, 'r')\<close> is read in text mode with universal newlines: a
  carriage return followed by a line feed, and a carriage return alone, are both read as
  one line feed.
\<close>

definition CR :: char where
  "CR = CHR 0x0D"

definition LF :: char where
  "LF = CHR 0x0A"

fun universal_newlines :: "string \<Rightarrow> string" where
  "universal_newlines [] = []"
| "universal_newlines [c] = (if c = CR then [LF] else [c])"
| "universal_newlines (c # d # cs) =
     (if c = CR
      then (if d = LF then LF # universal_newlines cs else LF # universal_newlines (d # cs))
      else c # universal_newlines (d # cs))"

text \<open>\<^verbatim>\<open>os.path.join(a, b)\<close> on POSIX.\<close>

definition path_join :: "string \<Rightarrow> string \<Rightarrow> string" where
  "path_join a b =
     (if prefix ''/'' b then b
      else if a = [] \<or> suffix ''/'' a then a @ b
      else a @ ''/'' @ b)"

subsection \<open>The world: files, performed effects, printed lines\<close>

text \<open>
  A file has its content, one character for each character that the locale encoding
  decodes from it, and says whether \<^verbatim>\<open>open\<close> succeeds on it for reading (\<open>can_open\<close>),
  whether its bytes decode at all (\<open>decodes\<close>), and whether \<^verbatim>\<open>open\<close> succeeds on it for
  writing. A file can be read when it opens and decodes. The trace lists the reads and
  writes that were performed, in order.
\<close>

record node =
  can_open :: bool
  decodes :: bool
  can_write :: bool
  data :: string

definition can_read :: "node \<Rightarrow> bool" where
  "can_read f = (can_open f \<and> decodes f)"

datatype event = Read string | Write string string

record world =
  fs :: "string \<rightharpoonup> node"
  trace :: "event list"
  stdout :: "string list"

definition print :: "string \<Rightarrow> world \<Rightarrow> world" where
  "print line w = w\<lparr>stdout := stdout w @ [line]\<rparr>"

definition path_exists :: "string \<Rightarrow> world \<Rightarrow> bool" where
  "path_exists p w = (fs w p \<noteq> None)"

text \<open>
  \<^verbatim>\<open>with open(p, 'r') as f: content = f.read()\<close>. \<^verbatim>\<open>open\<close> raises when the file does
  not open; \<^verbatim>\<open>f.read()\<close> raises when its bytes do not decode; otherwise the text read is
  the content with its line ends translated.
\<close>

definition read_file :: "string \<Rightarrow> world \<Rightarrow> (error + string) \<times> world" where
  "read_file p w =
     (case fs w p of
        None \<Rightarrow> (Inl (OSError p), w)
      | Some f \<Rightarrow>
          if \<not> can_open f then (Inl (OSError p), w)
          else if \<not> decodes f then (Inl (UnicodeDecodeError p), w)
          else (Inr (universal_newlines (data f)), w\<lparr>trace := trace w @ [Read p]\<rparr>))"

text \<open>
  \<^verbatim>\<open>with open(p, 'w') as f: f.write(content)\<close>. Opening an absent path for writing
  creates the file; the script only writes paths it has found to exist. The text is
  written as it is: on POSIX, whose paths the script builds, a line feed is written as a
  line feed, and what was decoded from the file is encoded back.
\<close>

definition write_file :: "string \<Rightarrow> string \<Rightarrow> world \<Rightarrow> (error + unit) \<times> world" where
  "write_file p s w =
     (case fs w p of
        None \<Rightarrow>
          (Inr (), w\<lparr>fs := (fs w)(p \<mapsto> \<lparr>can_open = True, decodes = True, can_write = True, data = s\<rparr>),
                     trace := trace w @ [Write p s]\<rparr>)
      | Some f \<Rightarrow>
          if can_write f
          then (Inr (), w\<lparr>fs := (fs w)(p \<mapsto> f\<lparr>data := s\<rparr>), trace := trace w @ [Write p s]\<rparr>)
          else (Inl (OSError p), w))"

text \<open>\<^verbatim>\<open>VLLM_DIR = os.environ.get('VLLM_DIR', '/build/vllm')\<close>\<close>

definition VLLM_DIR :: "(string \<rightharpoonup> string) \<Rightarrow> string" where
  "VLLM_DIR environ = (case environ ''VLLM_DIR'' of None \<Rightarrow> ''/build/vllm'' | Some d \<Rightarrow> d)"

subsection \<open>\<^verbatim>\<open>patch_custom_ops\<close>\<close>

definition custom_ops_marker :: string where
  "custom_ops_marker = ''cutlass_scaled_mm_supports_fp8 unavailable''"

definition custom_ops_old :: string where
  "custom_ops_old = ''def cutlass_scaled_mm_supports_fp8(cuda_device_capability: int) -> bool:\<newline>    return torch.ops._C.cutlass_scaled_mm_supports_fp8(cuda_device_capability)''"

definition custom_ops_new :: string where
  \<open>custom_ops_new = ''def cutlass_scaled_mm_supports_fp8(cuda_device_capability: int) -> bool:\<newline>    try:\<newline>        return torch.ops._C.cutlass_scaled_mm_supports_fp8(cuda_device_capability)\<newline>    except Exception as e:\<newline>        import warnings\<newline>        warnings.warn(f"cutlass_scaled_mm_supports_fp8 unavailable: {e}")\<newline>        return False''\<close>

definition custom_ops_old2 :: string where
  "custom_ops_old2 = ''def cutlass_scaled_mm_supports_block_fp8(cuda_device_capability: int) -> bool:\<newline>    return torch.ops._C.cutlass_scaled_mm_supports_block_fp8(\<newline>        cuda_device_capability)''"

definition custom_ops_new2 :: string where
  \<open>custom_ops_new2 = ''def cutlass_scaled_mm_supports_block_fp8(cuda_device_capability: int) -> bool:\<newline>    try:\<newline>        return torch.ops._C.cutlass_scaled_mm_supports_block_fp8(\<newline>            cuda_device_capability)\<newline>    except Exception as e:\<newline>        import warnings\<newline>        warnings.warn(f"cutlass_scaled_mm_supports_block_fp8 unavailable: {e}")\<newline>        return False''\<close>

definition custom_ops_path :: "string \<Rightarrow> string" where
  "custom_ops_path vllm_dir = path_join vllm_dir ''vllm/_custom_ops.py''"

definition patch_custom_ops :: "string \<Rightarrow> world \<Rightarrow> (error + bool) \<times> world" where
  "patch_custom_ops vllm_dir w =
     (let filepath = custom_ops_path vllm_dir in
      if \<not> path_exists filepath w
      then (Inr False, print (''WARNING: '' @ filepath @ '' not found, skipping'') w)
      else
        case read_file filepath w of
          (Inl e, w) \<Rightarrow> (Inl e, w)
        | (Inr content, w) \<Rightarrow>
            if contains custom_ops_marker content
            then (Inr True, print (''SKIP: '' @ filepath @ '' already patched'') w)
            else
              let (content, w) =
                    (if contains custom_ops_old content
                     then (replace custom_ops_old custom_ops_new content,
                           print (''PATCHED: cutlass_scaled_mm_supports_fp8 in '' @ filepath) w)
                     else (content,
                           print (''WARNING: Could not find cutlass_scaled_mm_supports_fp8 pattern in ''
                                  @ filepath) w));
                  (content, w) =
                    (if contains custom_ops_old2 content
                     then (replace custom_ops_old2 custom_ops_new2 content,
                           print (''PATCHED: cutlass_scaled_mm_supports_block_fp8 in '' @ filepath) w)
                     else (content,
                           print (''WARNING: Could not find cutlass_scaled_mm_supports_block_fp8 pattern in ''
                                  @ filepath) w))
              in (case write_file filepath content w of
                    (Inl e, w) \<Rightarrow> (Inl e, w)
                  | (Inr u, w) \<Rightarrow> (Inr True, w)))"

subsection \<open>\<^verbatim>\<open>patch_mxfp4\<close>\<close>

definition mxfp4_marker :: string where
  "mxfp4_marker = ''<= (12, 1)''"

definition old_pattern :: string where
  "old_pattern = ''< '' @ [CHR 0x5C] @ ''(11, 0'' @ [CHR 0x5C] @ '')''"

definition new_pattern :: string where
  "new_pattern = ''<= (12, 1)''"

definition mxfp4_path :: "string \<Rightarrow> string" where
  "mxfp4_path vllm_dir = path_join vllm_dir ''vllm/model_executor/layers/quantization/mxfp4.py''"

definition patch_mxfp4 :: "string \<Rightarrow> world \<Rightarrow> (error + bool) \<times> world" where
  "patch_mxfp4 vllm_dir w =
     (let filepath = mxfp4_path vllm_dir in
      if \<not> path_exists filepath w
      then (Inr False, print (''WARNING: '' @ filepath @ '' not found, skipping'') w)
      else
        case read_file filepath w of
          (Inl e, w) \<Rightarrow> (Inl e, w)
        | (Inr content, w) \<Rightarrow>
            if contains mxfp4_marker content
            then (Inr True, print (''SKIP: '' @ filepath @ '' already patched'') w)
            else
              let (content, w) =
                    (if re_search old_pattern content
                     then (re_sub old_pattern new_pattern content,
                           print (''PATCHED: device capability range in '' @ filepath) w)
                     else (content,
                           print (''WARNING: Could not find capability pattern in '' @ filepath) w))
              in (case write_file filepath content w of
                    (Inl e, w) \<Rightarrow> (Inl e, w)
                  | (Inr u, w) \<Rightarrow> (Inr True, w)))"

subsection \<open>\<^verbatim>\<open>patch_w8a8_utils\<close>\<close>

definition w8a8_marker1 :: string where
  "w8a8_marker1 = ''CUTLASS_FP8_SUPPORTED = False''"

definition w8a8_marker2 :: string where
  "w8a8_marker2 = ''except Exception''"

definition w8a8_old :: string where
  "w8a8_old = ''CUTLASS_FP8_SUPPORTED = cutlass_fp8_supported()''"

definition w8a8_new :: string where
  "w8a8_new = ''try:\<newline>    CUTLASS_FP8_SUPPORTED = cutlass_fp8_supported()\<newline>except Exception:\<newline>    CUTLASS_FP8_SUPPORTED = False''"

definition w8a8_old2 :: string where
  "w8a8_old2 = ''CUTLASS_BLOCK_FP8_SUPPORTED = cutlass_block_fp8_supported()''"

definition w8a8_new2 :: string where
  "w8a8_new2 = ''try:\<newline>    CUTLASS_BLOCK_FP8_SUPPORTED = cutlass_block_fp8_supported()\<newline>except Exception:\<newline>    CUTLASS_BLOCK_FP8_SUPPORTED = False''"

definition w8a8_path :: "string \<Rightarrow> string" where
  "w8a8_path vllm_dir =
     path_join vllm_dir ''vllm/model_executor/layers/quantization/utils/w8a8_utils.py''"

definition patch_w8a8_utils :: "string \<Rightarrow> world \<Rightarrow> (error + bool) \<times> world" where
  "patch_w8a8_utils vllm_dir w =
     (let filepath = w8a8_path vllm_dir in
      if \<not> path_exists filepath w
      then (Inr False, print (''WARNING: '' @ filepath @ '' not found, skipping'') w)
      else
        case read_file filepath w of
          (Inl e, w) \<Rightarrow> (Inl e, w)
        | (Inr content, w) \<Rightarrow>
            if contains w8a8_marker1 content \<and> contains w8a8_marker2 content
            then (Inr True, print (''SKIP: '' @ filepath @ '' already patched'') w)
            else
              let (content, w) =
                    (if contains w8a8_old content
                     then (replace w8a8_old w8a8_new content,
                           print (''PATCHED: CUTLASS_FP8_SUPPORTED in '' @ filepath) w)
                     else (content,
                           print (''WARNING: Could not find CUTLASS_FP8_SUPPORTED pattern in ''
                                  @ filepath) w));
                  (content, w) =
                    (if contains w8a8_old2 content
                     then (replace w8a8_old2 w8a8_new2 content,
                           print (''PATCHED: CUTLASS_BLOCK_FP8_SUPPORTED in '' @ filepath) w)
                     else (content,
                           print (''WARNING: Could not find CUTLASS_BLOCK_FP8_SUPPORTED pattern in ''
                                  @ filepath) w))
              in (case write_file filepath content w of
                    (Inl e, w) \<Rightarrow> (Inl e, w)
                  | (Inr u, w) \<Rightarrow> (Inr True, w)))"

subsection \<open>\<^verbatim>\<open>patch_matcher_utils\<close>\<close>

definition matcher_marker :: string where
  \<open>matcher_marker = ''hasattr(torch.ops._C, "silu_and_mul")''\<close>

definition matcher_old :: string where
  "matcher_old = ''SILU_MUL_OP = torch.ops._C.silu_and_mul.default''"

definition matcher_new :: string where
  \<open>matcher_new = ''SILU_MUL_OP = torch.ops._C.silu_and_mul.default if hasattr(torch.ops._C, "silu_and_mul") else None''\<close>

definition fp8_patterns :: "(string \<times> string) list" where
  \<open>fp8_patterns =
     [(''torch.ops._C.static_scaled_fp8_quant.default'',
       ''torch.ops._C.static_scaled_fp8_quant.default if hasattr(torch.ops._C, "static_scaled_fp8_quant") else None''),
      (''torch.ops._C.dynamic_scaled_fp8_quant.default'',
       ''torch.ops._C.dynamic_scaled_fp8_quant.default if hasattr(torch.ops._C, "dynamic_scaled_fp8_quant") else None''),
      (''torch.ops._C.dynamic_per_token_scaled_fp8_quant.default'',
       ''torch.ops._C.dynamic_per_token_scaled_fp8_quant.default if hasattr(torch.ops._C, "dynamic_per_token_scaled_fp8_quant") else None'')]\<close>

definition matcher_path :: "string \<Rightarrow> string" where
  "matcher_path vllm_dir = path_join vllm_dir ''vllm/compilation/matcher_utils.py''"

text \<open>
  \<^verbatim>\<open>content.split(old_pat)[0].split('\n')[-1]\<close>: the text of the line on which \<open>old_pat\<close>
  first occurs, up to that occurrence.
\<close>

definition line_before :: "string \<Rightarrow> string \<Rightarrow> error + string" where
  "line_before old_pat content =
     (case split old_pat content of
        Inl e \<Rightarrow> Inl e
      | Inr pieces \<Rightarrow>
          (case index pieces 0 of
             Inl e \<Rightarrow> Inl e
           | Inr head \<Rightarrow>
               (case split ''\<newline>'' head of
                  Inl e \<Rightarrow> Inl e
                | Inr lines \<Rightarrow> index lines (- 1))))"

text \<open>
  The condition of the loop body,
  \<^verbatim>\<open>old_pat in content and 'hasattr' not in content.split(old_pat)[0].split('\n')[-1]\<close>;
  the right operand is evaluated only when the left one holds.
\<close>

definition fp8_cond :: "string \<Rightarrow> string \<Rightarrow> error + bool" where
  "fp8_cond old_pat content =
     (if contains old_pat content
      then (case line_before old_pat content of
              Inl e \<Rightarrow> Inl e
            | Inr line \<Rightarrow> Inr (\<not> contains ''hasattr'' line))
      else Inr False)"

text \<open>The body of the loop over \<^verbatim>\<open>fp8_patterns\<close>, on the loop state (content, patched).\<close>

definition fp8_body ::
  "string \<Rightarrow> string \<times> string \<Rightarrow> string \<times> bool \<Rightarrow> world \<Rightarrow> (error + string \<times> bool) \<times> world" where
  "fp8_body filepath pat st w =
     (case pat of (old_pat, new_pat) \<Rightarrow>
      case st of (content, patched) \<Rightarrow>
        (case fp8_cond old_pat content of
           Inl e \<Rightarrow> (Inl e, w)
         | Inr False \<Rightarrow> (Inr (content, patched), w)
         | Inr True \<Rightarrow>
             (case split ''.'' old_pat of
                Inl e \<Rightarrow> (Inl e, w)
              | Inr parts \<Rightarrow>
                  (case index parts (- 2) of
                     Inl e \<Rightarrow> (Inl e, w)
                   | Inr name \<Rightarrow>
                       (Inr (replace old_pat new_pat content, True),
                        print (''PATCHED: '' @ name @ '' in '' @ filepath) w)))))"

fun fp8_loop ::
  "string \<Rightarrow> (string \<times> string) list \<Rightarrow> string \<times> bool \<Rightarrow> world \<Rightarrow> (error + string \<times> bool) \<times> world" where
  "fp8_loop filepath [] st w = (Inr st, w)"
| "fp8_loop filepath (pat # pats) st w =
     (case fp8_body filepath pat st w of
        (Inl e, w) \<Rightarrow> (Inl e, w)
      | (Inr st, w) \<Rightarrow> fp8_loop filepath pats st w)"

definition patch_matcher_utils :: "string \<Rightarrow> world \<Rightarrow> (error + bool) \<times> world" where
  "patch_matcher_utils vllm_dir w =
     (let filepath = matcher_path vllm_dir in
      if \<not> path_exists filepath w
      then (Inr False, print (''WARNING: '' @ filepath @ '' not found, skipping'') w)
      else
        case read_file filepath w of
          (Inl e, w) \<Rightarrow> (Inl e, w)
        | (Inr content, w) \<Rightarrow>
            if contains matcher_marker content
            then (Inr True, print (''SKIP: '' @ filepath @ '' already patched'') w)
            else
              let patched = False;
                  (content, patched, w) =
                    (if contains matcher_old content
                     then (replace matcher_old matcher_new content, True,
                           print (''PATCHED: SILU_MUL_OP in '' @ filepath) w)
                     else (content, patched, w))
              in (case fp8_loop filepath fp8_patterns (content, patched) w of
                    (Inl e, w) \<Rightarrow> (Inl e, w)
                  | (Inr (content, patched), w) \<Rightarrow>
                      let w = (if \<not> patched
                               then print (''WARNING: No patterns found to patch in '' @ filepath) w
                               else w)
                      in (case write_file filepath content w of
                            (Inl e, w) \<Rightarrow> (Inl e, w)
                          | (Inr u, w) \<Rightarrow> (Inr True, w))))"

subsection \<open>\<^verbatim>\<open>main\<close> and the entry point\<close>

definition summary_line :: "string \<times> bool \<Rightarrow> string" where
  "summary_line r = (case r of (name, success) \<Rightarrow>
     ''  '' @ name @ '': '' @ (if success then ''OK'' else ''FAILED''))"

definition main :: "string \<Rightarrow> world \<Rightarrow> (error + int) \<times> world" where
  "main vllm_dir w =
     (let w = print (replicate 60 CHR ''='') w;
          w = print ''Applying vLLM PR #31607 patches for SM 12.1 (Blackwell GB10)'' w;
          w = print (replicate 60 CHR ''='') w;
          w = print (''VLLM_DIR: '' @ vllm_dir) w;
          w = print [] w
      in case patch_custom_ops vllm_dir w of
           (Inl e, w) \<Rightarrow> (Inl e, w)
         | (Inr r1, w) \<Rightarrow>
     (case patch_mxfp4 vllm_dir w of
           (Inl e, w) \<Rightarrow> (Inl e, w)
         | (Inr r2, w) \<Rightarrow>
     (case patch_w8a8_utils vllm_dir w of
           (Inl e, w) \<Rightarrow> (Inl e, w)
         | (Inr r3, w) \<Rightarrow>
     (case patch_matcher_utils vllm_dir w of
           (Inl e, w) \<Rightarrow> (Inl e, w)
         | (Inr r4, w) \<Rightarrow>
          let results = [(''_custom_ops.py'', r1), (''mxfp4.py'', r2),
                         (''w8a8_utils.py'', r3), (''matcher_utils.py'', r4)];
              w = print [] w;
              w = print (replicate 60 CHR ''='') w;
              w = print ''Summary:'' w;
              w = fold (\<lambda>r. print (summary_line r)) results w;
              failed = map fst (filter (\<lambda>r. \<not> snd r) results)
          in if failed \<noteq> []
             then (Inr 1, print (''\<newline>WARNING: Some patches failed: '' @ join '', '' failed) w)
             else (Inr 0, print ''\<newline>All patches applied successfully!'' w)))))"

text \<open>
  \<^verbatim>\<open>sys.exit(main())\<close>: the exit status of the process. An exception that leaves
  \<^verbatim>\<open>main\<close> is caught nowhere; the interpreter then ends with status 1.
\<close>

definition exit_status :: "string \<Rightarrow> world \<Rightarrow> int \<times> world" where
  "exit_status vllm_dir w =
     (case main vllm_dir w of
        (Inl e, w) \<Rightarrow> (1, w)
      | (Inr status, w) \<Rightarrow> (status, w))"

section \<open>Notions used to state the properties\<close>

subsection \<open>The four units\<close>

text \<open>
  \<^verbatim>\<open>main\<close> calls the four patch functions in a fixed order. To state a property of
  all of them at once they are indexed by a datatype: \<open>patch u\<close> is the function,
  \<open>target u\<close> the path it derives from \<^verbatim>\<open>VLLM_DIR\<close>, \<open>already_patched u\<close> its test
  under the comment \<^verbatim>\<open># Check if already patched\<close>.
\<close>

datatype patch_unit = Custom_ops | Mxfp4 | W8a8_utils | Matcher_utils

definition units :: "patch_unit list" where
  "units = [Custom_ops, Mxfp4, W8a8_utils, Matcher_utils]"

fun patch :: "patch_unit \<Rightarrow> string \<Rightarrow> world \<Rightarrow> (error + bool) \<times> world" where
  "patch Custom_ops = patch_custom_ops"
| "patch Mxfp4 = patch_mxfp4"
| "patch W8a8_utils = patch_w8a8_utils"
| "patch Matcher_utils = patch_matcher_utils"

fun target :: "patch_unit \<Rightarrow> string \<Rightarrow> string" where
  "target Custom_ops = custom_ops_path"
| "target Mxfp4 = mxfp4_path"
| "target W8a8_utils = w8a8_path"
| "target Matcher_utils = matcher_path"

fun already_patched :: "patch_unit \<Rightarrow> string \<Rightarrow> bool" where
  "already_patched Custom_ops content = contains custom_ops_marker content"
| "already_patched Mxfp4 content = contains mxfp4_marker content"
| "already_patched W8a8_utils content =
     (contains w8a8_marker1 content \<and> contains w8a8_marker2 content)"
| "already_patched Matcher_utils content = contains matcher_marker content"

text \<open>
  A unit is blocked in a world when its run there ends in an exception: its target exists
  and cannot be read, or is to be rewritten and cannot be written. \<open>raised\<close> is the
  exception.
\<close>

definition blocked :: "patch_unit \<Rightarrow> string \<Rightarrow> world \<Rightarrow> bool" where
  "blocked u d w =
     (case fs w (target u d) of
        None \<Rightarrow> False
      | Some f \<Rightarrow>
          \<not> can_read f
          \<or> (\<not> already_patched u (universal_newlines (data f)) \<and> \<not> can_write f))"

definition raised :: "patch_unit \<Rightarrow> string \<Rightarrow> world \<Rightarrow> error" where
  "raised u d w =
     (case fs w (target u d) of
        None \<Rightarrow> OSError (target u d)
      | Some f \<Rightarrow>
          if can_open f \<and> \<not> decodes f then UnicodeDecodeError (target u d)
          else OSError (target u d))"

fun path_of :: "event \<Rightarrow> string" where
  "path_of (Read p) = p"
| "path_of (Write p s) = p"

subsection \<open>The parts of \<^verbatim>\<open>main\<close>\<close>

text \<open>
  \<^verbatim>\<open>main\<close> prints a banner, calls the four patch functions one after the other, and
  prints the summary from which it takes its result. \<open>run\<close> is the sequence of calls, on
  any list of units: a call that raises ends it, as the exception ends \<^verbatim>\<open>main\<close>.
\<close>

definition banner :: "string \<Rightarrow> world \<Rightarrow> world" where
  "banner vllm_dir w =
     print [] (print (''VLLM_DIR: '' @ vllm_dir) (print (replicate 60 CHR ''='')
       (print ''Applying vLLM PR #31607 patches for SM 12.1 (Blackwell GB10)''
          (print (replicate 60 CHR ''='') w))))"

fun run :: "patch_unit list \<Rightarrow> string \<Rightarrow> world \<Rightarrow> (error + bool list) \<times> world" where
  "run [] d w = (Inr [], w)"
| "run (u # us) d w =
     (case patch u d w of
        (Inl e, w') \<Rightarrow> (Inl e, w')
      | (Inr r, w') \<Rightarrow>
          (case run us d w' of
             (Inl e, w'') \<Rightarrow> (Inl e, w'')
           | (Inr rs, w'') \<Rightarrow> (Inr (r # rs), w'')))"

definition names :: "string list" where
  "names = [''_custom_ops.py'', ''mxfp4.py'', ''w8a8_utils.py'', ''matcher_utils.py'']"

definition finish :: "(string \<times> bool) list \<Rightarrow> world \<Rightarrow> (error + int) \<times> world" where
  "finish results w =
     (let w = print [] w;
          w = print (replicate 60 CHR ''='') w;
          w = print ''Summary:'' w;
          w = fold (\<lambda>r. print (summary_line r)) results w;
          failed = map fst (filter (\<lambda>r. \<not> snd r) results)
      in if failed \<noteq> []
         then (Inr 1, print (''\<newline>WARNING: Some patches failed: '' @ join '', '' failed) w)
         else (Inr 0, print ''\<newline>All patches applied successfully!'' w))"

subsection \<open>A generic executor of rules, after the specification\<close>

text \<open>
  The specification describes a unit as an ordered list of (search, replacement) rules run
  by one generic executor: each rule in turn is looked for in the current text, replaced
  everywhere when found, and passed over otherwise. \<open>spec_rewrite\<close> is this executor.
  A \<open>Plain\<close> rule applies when its search text occurs. A \<open>Guarded\<close> rule applies when
  its search text occurs and \<^verbatim>\<open>hasattr\<close> does not occur on the line of the first
  occurrence before that occurrence: \<open>before_first old s\<close> is the text of \<open>s\<close> up to the
  first occurrence of \<open>old\<close>, \<open>last_line s\<close> what follows the last line feed of \<open>s\<close>.
\<close>

fun before_first :: "string \<Rightarrow> string \<Rightarrow> string" where
  "before_first old [] = []"
| "before_first old (c # cs) = (if prefix old (c # cs) then [] else c # before_first old cs)"

definition last_line :: "string \<Rightarrow> string" where
  "last_line s = rev (takeWhile (\<lambda>c. c \<noteq> LF) (rev s))"

datatype rule = Plain string string | Guarded string string

fun search :: "rule \<Rightarrow> string" where
  "search (Plain old new) = old"
| "search (Guarded old new) = old"

fun replacement :: "rule \<Rightarrow> string" where
  "replacement (Plain old new) = new"
| "replacement (Guarded old new) = new"

fun applies :: "rule \<Rightarrow> string \<Rightarrow> bool" where
  "applies (Plain old new) content = contains old content"
| "applies (Guarded old new) content =
     (contains old content \<and> \<not> contains ''hasattr'' (last_line (before_first old content)))"

definition spec_apply_rule :: "rule \<Rightarrow> string \<Rightarrow> string" where
  "spec_apply_rule r content =
     (if applies r content then replace (search r) (replacement r) content else content)"

definition spec_rewrite :: "rule list \<Rightarrow> string \<Rightarrow> string" where
  "spec_rewrite rs content = fold spec_apply_rule rs content"

text \<open>Which rules applied, each on the text its predecessors left.\<close>

fun hits :: "rule list \<Rightarrow> string \<Rightarrow> bool list" where
  "hits [] content = []"
| "hits (r # rs) content = applies r content # hits rs (spec_apply_rule r content)"

fun rules :: "patch_unit \<Rightarrow> rule list" where
  "rules Custom_ops =
     [Plain custom_ops_old custom_ops_new, Plain custom_ops_old2 custom_ops_new2]"
| "rules Mxfp4 = [Plain (re_literal old_pattern) new_pattern]"
| "rules W8a8_utils = [Plain w8a8_old w8a8_new, Plain w8a8_old2 w8a8_new2]"
| "rules Matcher_utils =
     Plain matcher_old matcher_new # map (\<lambda>p. Guarded (fst p) (snd p)) fp8_patterns"

subsection \<open>The lines a unit prints while it applies its rules\<close>

definition pat_name :: "string \<Rightarrow> string" where
  "pat_name old_pat =
     (case split ''.'' old_pat of
        Inl e \<Rightarrow> []
      | Inr parts \<Rightarrow> (case index parts (- 2) of Inl e \<Rightarrow> [] | Inr name \<Rightarrow> name))"

text \<open>\<^verbatim>\<open>old_pat.split('.')[-2]\<close> is defined: the pattern has two dot-separated parts or more.\<close>

definition named :: "string \<Rightarrow> bool" where
  "named old_pat =
     (case split ''.'' old_pat of
        Inl e \<Rightarrow> False
      | Inr parts \<Rightarrow> (case index parts (- 2) of Inl e \<Rightarrow> False | Inr name \<Rightarrow> True))"

fun fp8_report :: "string \<Rightarrow> (string \<times> string) list \<Rightarrow> string \<Rightarrow> string list" where
  "fp8_report filepath [] content = []"
| "fp8_report filepath (pat # pats) content =
     (if applies (Guarded (fst pat) (snd pat)) content
      then [''PATCHED: '' @ pat_name (fst pat) @ '' in '' @ filepath] else [])
     @ fp8_report filepath pats (spec_apply_rule (Guarded (fst pat) (snd pat)) content)"

fun report :: "patch_unit \<Rightarrow> string \<Rightarrow> string \<Rightarrow> string list" where
  "report Custom_ops filepath content =
     [if contains custom_ops_old content
      then ''PATCHED: cutlass_scaled_mm_supports_fp8 in '' @ filepath
      else ''WARNING: Could not find cutlass_scaled_mm_supports_fp8 pattern in '' @ filepath,
      if contains custom_ops_old2 (spec_apply_rule (Plain custom_ops_old custom_ops_new) content)
      then ''PATCHED: cutlass_scaled_mm_supports_block_fp8 in '' @ filepath
      else ''WARNING: Could not find cutlass_scaled_mm_supports_block_fp8 pattern in '' @ filepath]"
| "report Mxfp4 filepath content =
     [if contains (re_literal old_pattern) content
      then ''PATCHED: device capability range in '' @ filepath
      else ''WARNING: Could not find capability pattern in '' @ filepath]"
| "report W8a8_utils filepath content =
     [if contains w8a8_old content
      then ''PATCHED: CUTLASS_FP8_SUPPORTED in '' @ filepath
      else ''WARNING: Could not find CUTLASS_FP8_SUPPORTED pattern in '' @ filepath,
      if contains w8a8_old2 (spec_apply_rule (Plain w8a8_old w8a8_new) content)
      then ''PATCHED: CUTLASS_BLOCK_FP8_SUPPORTED in '' @ filepath
      else ''WARNING: Could not find CUTLASS_BLOCK_FP8_SUPPORTED pattern in '' @ filepath]"
| "report Matcher_utils filepath content =
     (let ms = (if contains matcher_old content
                then [''PATCHED: SILU_MUL_OP in '' @ filepath] else [])
               @ fp8_report filepath fp8_patterns
                   (spec_apply_rule (Plain matcher_old matcher_new) content)
      in if ms = [] then [''WARNING: No patterns found to patch in '' @ filepath] else ms)"

subsection \<open>Texts that cannot overlap\<close>

text \<open>
  \<open>clear_of s m\<close>: no non-empty end of \<open>s\<close> is a beginning of \<open>m\<close> or begins with
  \<open>m\<close>. When \<open>old\<close> and \<open>m\<close> are \<open>apart\<close>, no occurrence of \<open>old\<close> in a text can share
  a character with an occurrence of \<open>m\<close>.
\<close>

fun clear_of :: "string \<Rightarrow> string \<Rightarrow> bool" where
  "clear_of [] m = True"
| "clear_of (c # t) m = (\<not> prefix (c # t) m \<and> \<not> prefix m (c # t) \<and> clear_of t m)"

definition apart :: "string \<Rightarrow> string \<Rightarrow> bool" where
  "apart old m = (clear_of old m \<and> clear_of m old)"

subsection \<open>Worlds used in the examples\<close>

definition locked_file :: "string \<Rightarrow> node" where
  "locked_file s = \<lparr>can_open = False, decodes = True, can_write = True, data = s\<rparr>"

definition plain_file :: "string \<Rightarrow> node" where
  "plain_file s = \<lparr>can_open = True, decodes = True, can_write = True, data = s\<rparr>"

text \<open>A text with the line ends of DOS: each line feed preceded by a carriage return.\<close>

fun dos_text :: "string \<Rightarrow> string" where
  "dos_text [] = []"
| "dos_text (c # cs) = (if c = LF then CR # LF # dos_text cs else c # dos_text cs)"

text \<open>A line of \<^verbatim>\<open>matcher_utils.py\<close> in which the operator is already tested for.\<close>

definition wrapped_line :: string where
  \<open>wrapped_line = ''QUANT = None if not hasattr(torch.ops._C, "static_scaled_fp8_quant") else torch.ops._C.static_scaled_fp8_quant.default''\<close>

definition world_of :: "(string \<rightharpoonup> node) \<Rightarrow> world" where
  "world_of files = \<lparr>fs = files, trace = [], stdout = []\<rparr>"

text \<open>
  Four source trees under a directory \<open>d\<close>. In \<open>sparse_tree\<close> the file of
  \<^verbatim>\<open>patch_custom_ops\<close> is absent and the other three hold nothing to patch. In
  \<open>drifted_tree\<close> all four files exist: that of \<^verbatim>\<open>patch_custom_ops\<close> holds the second
  search text only, the others nothing to patch. In \<open>locked_tree\<close> the file of
  \<^verbatim>\<open>patch_custom_ops\<close> cannot be read and that of \<^verbatim>\<open>patch_mxfp4\<close> holds the capability
  check. In \<open>stalled_tree\<close> the file of \<^verbatim>\<open>patch_mxfp4\<close> holds the capability check,
  that of \<^verbatim>\<open>patch_w8a8_utils\<close> cannot be read, and the other two hold nothing to patch.
\<close>

definition sparse_tree :: "string \<Rightarrow> world" where
  "sparse_tree d =
     world_of [target Mxfp4 d \<mapsto> plain_file ''import torch'',
               target W8a8_utils d \<mapsto> plain_file ''import torch'',
               target Matcher_utils d \<mapsto> plain_file ''import torch'']"

definition drifted_tree :: "string \<Rightarrow> world" where
  "drifted_tree d =
     world_of [target Custom_ops d \<mapsto> plain_file custom_ops_old2,
               target Mxfp4 d \<mapsto> plain_file ''import torch'',
               target W8a8_utils d \<mapsto> plain_file ''import torch'',
               target Matcher_utils d \<mapsto> plain_file ''import torch'']"

definition locked_tree :: "string \<Rightarrow> world" where
  "locked_tree d =
     world_of [target Custom_ops d \<mapsto> locked_file ''import torch'',
               target Mxfp4 d \<mapsto> plain_file ''if cap < (11, 0):'']"

definition stalled_tree :: "string \<Rightarrow> world" where
  "stalled_tree d =
     world_of [target Custom_ops d \<mapsto> plain_file ''import torch'',
               target Mxfp4 d \<mapsto> plain_file ''if cap < (11, 0):'',
               target W8a8_utils d \<mapsto> locked_file ''import torch'',
               target Matcher_utils d \<mapsto> plain_file ''import torch'']"

section \<open>Supporting facts\<close>

subsection \<open>Substrings and replacement\<close>

lemma contains_sublist: "contains sub s \<longleftrightarrow> sublist sub s"
  by (induction s) (simp_all add: sublist_Cons_right)

lemma contains_append_iff: "contains sub s \<longleftrightarrow> (\<exists>pre post. s = pre @ sub @ post)"
  by (simp add: contains_sublist sublist_def)

lemma contains_trans: "contains a b \<Longrightarrow> contains b c \<Longrightarrow> contains a c"
  unfolding contains_sublist by (rule sublist_order.order_trans)

lemma replace_from_absent: "\<not> contains old s \<Longrightarrow> replace_from old new s = s"
  by (induction s) auto

lemma replace_absent: "\<not> contains old s \<Longrightarrow> replace old new s = s"
proof -
  assume a: "\<not> contains old s"
  then have "old \<noteq> []" by (auto simp: contains_sublist)
  with a show ?thesis by (simp add: replace_def replace_from_absent)
qed

lemma contains_replace_from:
  "old \<noteq> [] \<Longrightarrow> contains old s \<Longrightarrow> contains new (replace_from old new s)"
proof (induction old new s rule: replace_from.induct)
  case (1 old new)
  then show ?case by simp
next
  case (2 old new c cs)
  show ?case
  proof (cases "prefix old (c # cs)")
    case True
    then show ?thesis by (simp add: contains_sublist)
  next
    case False
    with 2 have "contains new (replace_from old new cs)" by simp
    with False show ?thesis by (simp add: contains_sublist sublist_Cons_right)
  qed
qed

lemma clear_of_suffix:
  "clear_of s m \<Longrightarrow> suffix t s \<Longrightarrow> t \<noteq> [] \<Longrightarrow> \<not> prefix t m \<and> \<not> prefix m t"
  by (induction s) (auto simp: suffix_Cons)

lemma replace_from_skip:
  "(\<And>u. suffix u m \<Longrightarrow> u \<noteq> [] \<Longrightarrow> \<not> prefix old (u @ post)) \<Longrightarrow>
   replace_from old new (m @ post) = m @ replace_from old new post"
proof (induction m)
  case Nil
  then show ?case by simp
next
  case (Cons c m)
  have "\<not> prefix old ((c # m) @ post)" by (rule Cons.prems) simp_all
  moreover have "replace_from old new (m @ post) = m @ replace_from old new post"
    by (rule Cons.IH) (simp add: Cons.prems suffix_Cons)
  ultimately show ?case by simp
qed

lemma prefix_append_cases: "prefix t (m @ post) \<Longrightarrow> prefix t m \<or> prefix m t"
  by (auto simp: prefix_append)

lemma apart_suffix_old:
  "apart old m \<Longrightarrow> suffix t old \<Longrightarrow> t \<noteq> [] \<Longrightarrow> \<not> prefix t m \<and> \<not> prefix m t"
  using clear_of_suffix [of old m t] by (simp add: apart_def)

lemma apart_suffix_m:
  "apart old m \<Longrightarrow> suffix u m \<Longrightarrow> u \<noteq> [] \<Longrightarrow> \<not> prefix old u \<and> \<not> prefix u old"
  using clear_of_suffix [of m old u] by (simp add: apart_def)

lemma apart_skip:
  assumes "apart old m"
  shows "replace_from old new (m @ post) = m @ replace_from old new post"
proof (rule replace_from_skip)
  fix u assume u: "suffix u m" "u \<noteq> []"
  show "\<not> prefix old (u @ post)"
    using apart_suffix_m [OF assms u] prefix_append_cases [of old u post] by blast
qed

lemma prefix_straddle:
  assumes "prefix old (pre @ rest)" "\<not> prefix old pre"
  shows "\<exists>t. suffix t old \<and> t \<noteq> [] \<and> prefix t rest"
proof -
  from assms obtain t where t: "old = pre @ t" "prefix t rest"
    by (auto simp: prefix_append)
  with assms(2) have "t \<noteq> []" by auto
  with t show ?thesis by (auto simp: suffix_def)
qed

lemma replace_from_apart:
  "apart old m \<Longrightarrow>
   replace_from old new (pre @ m @ post) =
   replace_from old new pre @ m @ replace_from old new post"
proof (induction old new pre rule: replace_from.induct)
  case (1 old new)
  then show ?case by (simp add: apart_skip)
next
  case (2 old new c cs)
  note ap = \<open>apart old m\<close>
  show ?case
  proof (cases "prefix old (c # cs)")
    case True
    then have le: "length old - 1 \<le> length cs"
      by (auto dest: prefix_length_le)
    from True have "prefix old ((c # cs) @ m @ post)"
      by (rule prefix_prefix)
    with True 2 le show ?thesis by simp
  next
    case False
    have "\<not> prefix old ((c # cs) @ m @ post)"
    proof
      assume "prefix old ((c # cs) @ m @ post)"
      with False obtain t where t: "suffix t old" "t \<noteq> []" "prefix t (m @ post)"
        using prefix_straddle by blast
      from apart_suffix_old [OF ap t(1,2)] prefix_append_cases [OF t(3)]
      show False by blast
    qed
    with False 2 show ?thesis by simp
  qed
qed

lemma contains_replace_apart:
  assumes "apart old m" "contains m s"
  shows "contains m (replace_from old new s)"
proof -
  from assms(2) obtain pre post where "s = pre @ m @ post"
    by (auto simp: contains_append_iff)
  then show ?thesis
    by (simp add: replace_from_apart [OF assms(1)] contains_sublist)
qed


subsection \<open>Universal newlines\<close>

lemma newline_literal: "''\<newline>'' = [LF]"
  by (simp add: LF_def)

lemma CR_not_LF: "CR \<noteq> LF"
  by (simp add: CR_def LF_def)

lemma universal_newlines_clean: "CR \<notin> set s \<Longrightarrow> universal_newlines s = s"
  by (induction s rule: universal_newlines.induct) auto

lemma universal_newlines_no_CR: "CR \<notin> set (universal_newlines s)"
  by (induction s rule: universal_newlines.induct) (auto simp: CR_not_LF)

lemma universal_newlines_twice: "universal_newlines (universal_newlines s) = universal_newlines s"
  by (rule universal_newlines_clean [OF universal_newlines_no_CR])

lemma universal_newlines_append:
  "ys = [] \<or> hd ys \<noteq> LF \<Longrightarrow>
   universal_newlines (xs @ ys) = universal_newlines xs @ universal_newlines ys"
proof (induction xs rule: universal_newlines.induct)
  case 1
  then show ?case by simp
next
  case (2 c)
  then show ?case by (cases ys) auto
next
  case (3 c d cs)
  then show ?case by auto
qed

lemma universal_newlines_clean_append:
  "CR \<notin> set m \<Longrightarrow> universal_newlines (m @ post) = m @ universal_newlines post"
proof (induction m)
  case Nil
  then show ?case by simp
next
  case (Cons c m)
  then show ?case by (cases "m @ post") auto
qed

lemma universal_newlines_around:
  assumes "m \<noteq> []" "CR \<notin> set m" "LF \<notin> set m"
  shows "universal_newlines (pre @ m @ post) =
         universal_newlines pre @ m @ universal_newlines post"
proof -
  from assms have "hd (m @ post) \<noteq> LF" by (cases m) auto
  then have "universal_newlines (pre @ m @ post) =
      universal_newlines pre @ universal_newlines (m @ post)"
    by (intro universal_newlines_append) simp
  with assms(2) show ?thesis by (simp add: universal_newlines_clean_append)
qed

lemma prefix_universal_newlines:
  "LF \<notin> set m \<Longrightarrow> prefix m (universal_newlines s) \<Longrightarrow> prefix m s"
proof (induction m arbitrary: s)
  case Nil
  then show ?case by simp
next
  case (Cons a m)
  show ?case
  proof (cases s rule: universal_newlines.cases)
    case 1
    with Cons.prems show ?thesis by simp
  next
    case (2 c)
    with Cons.prems show ?thesis by (auto split: if_splits)
  next
    case (3 c d cs)
    with Cons.prems Cons.IH [of "d # cs"] show ?thesis by (auto split: if_splits)
  qed
qed

lemma contains_universal_newlines:
  assumes "CR \<notin> set m" "LF \<notin> set m"
  shows "contains m (universal_newlines s) \<longleftrightarrow> contains m s"
proof
  assume "contains m s"
  show "contains m (universal_newlines s)"
  proof (cases "m = []")
    case True
    then show ?thesis by (simp add: contains_sublist)
  next
    case False
    from \<open>contains m s\<close> obtain pre post where "s = pre @ m @ post"
      by (auto simp: contains_append_iff)
    with universal_newlines_around [OF False assms] show ?thesis
      by (simp add: contains_sublist)
  qed
next
  assume "contains m (universal_newlines s)"
  then show "contains m s"
  proof (induction s rule: universal_newlines.induct)
    case 1
    then show ?case by simp
  next
    case (2 c)
    with prefix_universal_newlines [OF assms(2), of "[c]"] show ?case
      by (auto split: if_splits)
  next
    case (3 c d cs)
    show ?case
    proof (cases "prefix m (universal_newlines (c # d # cs))")
      case True
      from prefix_universal_newlines [OF assms(2) this] show ?thesis by simp
    next
      case False
      with 3 show ?thesis by (auto split: if_splits)
    qed
  qed
qed

lemma replace_from_no_CR:
  "CR \<notin> set new \<Longrightarrow> CR \<notin> set s \<Longrightarrow> CR \<notin> set (replace_from old new s)"
proof (induction old new s rule: replace_from.induct)
  case (1 old new)
  then show ?case by simp
next
  case (2 old new c cs)
  have "CR \<notin> set (drop (length old - 1) cs)"
    using 2(4) by (auto dest: in_set_dropD)
  with 2 show ?case by auto
qed

lemma replace_no_CR:
  "CR \<notin> set new \<Longrightarrow> CR \<notin> set s \<Longrightarrow> CR \<notin> set (replace old new s)"
  by (auto simp: replace_def replace_from_no_CR)

subsection \<open>The loop of \<^verbatim>\<open>patch_matcher_utils\<close>\<close>

declare applies.simps(2) [simp del]

lemma split_from_nonempty: "split_from sep acc s \<noteq> []"
  by (induction sep acc s rule: split_from.induct) auto

lemma index_first: "xs \<noteq> [] \<Longrightarrow> index xs 0 = Inr (hd xs)"
  by (cases xs) (simp_all add: index_def)

lemma index_last: "xs \<noteq> [] \<Longrightarrow> index xs (- 1) = Inr (last xs)"
  by (cases xs rule: rev_cases) (simp_all add: index_def)

lemma line_before_total:
  "old_pat \<noteq> [] \<Longrightarrow>
   line_before old_pat content =
   Inr (last (split_from ''\<newline>'' [] (hd (split_from old_pat [] content))))"
  by (simp add: line_before_def split_def index_first index_last split_from_nonempty)

lemma fp8_cond_total:
  "old_pat \<noteq> [] \<Longrightarrow>
   fp8_cond old_pat content =
   Inr (contains old_pat content \<and>
        \<not> contains ''hasattr'' (last (split_from ''\<newline>'' [] (hd (split_from old_pat [] content)))))"
  by (simp add: fp8_cond_def line_before_total)

lemma hd_split_from: "hd (split_from old acc s) = rev acc @ before_first old s"
  by (induction old acc s rule: split_from.induct) simp_all

lemma takeWhile_clean: "\<forall>x \<in> set xs. x \<noteq> LF \<Longrightarrow> takeWhile (\<lambda>c. c \<noteq> LF) xs = xs"
  by (induction xs) auto

lemma takeWhile_stops:
  "LF \<in> set xs \<Longrightarrow> takeWhile (\<lambda>c. c \<noteq> LF) (xs @ ys) = takeWhile (\<lambda>c. c \<noteq> LF) xs"
  by (induction xs) auto

lemma last_line_clean: "LF \<notin> set t \<Longrightarrow> last_line t = t"
proof -
  assume "LF \<notin> set t"
  then have "\<forall>x \<in> set (rev t). x \<noteq> LF" by auto
  from takeWhile_clean [OF this] show ?thesis
    unfolding last_line_def by (simp only: rev_rev_ident)
qed

lemma last_line_Cons: "LF \<in> set t \<Longrightarrow> last_line (c # t) = last_line t"
  using takeWhile_stops [of "rev t" "[c]"] by (simp add: last_line_def)

lemma last_line_LF: "last_line (LF # t) = last_line t"
proof (cases "LF \<in> set t")
  case True
  then show ?thesis by (rule last_line_Cons)
next
  case False
  then have all: "\<forall>x \<in> set (rev t). x \<noteq> LF" by auto
  have "takeWhile (\<lambda>c. c \<noteq> LF) (rev t @ [LF]) = rev t @ takeWhile (\<lambda>c. c \<noteq> LF) [LF]"
    by (rule takeWhile_append2) (use all in blast)
  then have "takeWhile (\<lambda>c. c \<noteq> LF) (rev (LF # t)) = takeWhile (\<lambda>c. c \<noteq> LF) (rev t)"
    by (simp only: takeWhile_clean [OF all] rev.simps takeWhile.simps simp_thms if_False
        append_Nil2 not_True_eq_False)
  then show ?thesis
    unfolding last_line_def by (simp only:)
qed

lemma last_split_from_LF:
  "last (split_from [LF] acc t) = (if LF \<in> set t then [] else rev acc) @ last_line t"
proof (induction t arbitrary: acc)
  case Nil
  then show ?case by (simp add: last_line_def)
next
  case (Cons c t)
  show ?case
  proof (cases "c = LF")
    case True
    with Cons.IH [of "[]"] show ?thesis
      by (simp add: split_from_nonempty last_line_LF)
  next
    case False
    show ?thesis
    proof (cases "LF \<in> set t")
      case True
      with False Cons.IH [of "c # acc"] show ?thesis
        by (simp add: last_line_Cons)
    next
      case none: False
      with False have "LF \<notin> set (c # t)" by auto
      from last_line_clean [OF this] none False Cons.IH [of "c # acc"] show ?thesis
        by (simp add: last_line_clean)
    qed
  qed
qed

lemma last_line_split: "last (split_from ''\<newline>'' [] t) = last_line t"
  by (cases "LF \<in> set t") (simp_all add: newline_literal last_split_from_LF last_line_clean)

text \<open>
  The condition of the loop is the guard as the generic executor has it: the search text
  occurs, and \<^verbatim>\<open>hasattr\<close> does not occur on its line before its first occurrence.
\<close>

lemma fp8_cond_applies:
  "old_pat \<noteq> [] \<Longrightarrow> fp8_cond old_pat content = Inr (applies (Guarded old_pat new_pat) content)"
  by (simp add: fp8_cond_total hd_split_from last_line_split applies.simps(2))

lemma fp8_cond_absent: "\<not> contains old_pat content \<Longrightarrow> fp8_cond old_pat content = Inr False"
  by (simp add: fp8_cond_def)

lemma fp8_body_eq:
  assumes "fst pat \<noteq> []" "named (fst pat)"
  shows "fp8_body filepath pat (content, patched) w =
     (Inr (spec_apply_rule (Guarded (fst pat) (snd pat)) content,
           patched \<or> applies (Guarded (fst pat) (snd pat)) content),
      w\<lparr>stdout := stdout w @ fp8_report filepath [pat] content\<rparr>)"
proof -
  obtain old new where pat: "pat = (old, new)" by (cases pat)
  from assms pat obtain parts n where n: "split ''.'' old = Inr parts" "index parts (- 2) = Inr n"
    by (auto simp: named_def split: sum.splits)
  from assms pat have b: "fp8_cond old content = Inr (applies (Guarded old new) content)"
    by (simp add: fp8_cond_applies)
  show ?thesis
    using n b
    by (cases "applies (Guarded old new) content")
       (simp_all add: fp8_body_def pat spec_apply_rule_def pat_name_def print_def)
qed

lemma fp8_report_Cons:
  "fp8_report filepath (pat # pats) content =
   fp8_report filepath [pat] content
   @ fp8_report filepath pats (spec_apply_rule (Guarded (fst pat) (snd pat)) content)"
  by simp

lemma fp8_loop_eq:
  assumes "\<forall>pat \<in> set pats. fst pat \<noteq> [] \<and> named (fst pat)"
  shows "fp8_loop filepath pats (content, patched) w =
     (Inr (spec_rewrite (map (\<lambda>p. Guarded (fst p) (snd p)) pats) content,
           patched \<or> fp8_report filepath pats content \<noteq> []),
      w\<lparr>stdout := stdout w @ fp8_report filepath pats content\<rparr>)"
  using assms
proof (induction pats arbitrary: content patched w)
  case Nil
  then show ?case by (simp add: spec_rewrite_def)
next
  case (Cons pat pats)
  then have p: "fst pat \<noteq> []" "named (fst pat)" by simp_all
  have rest: "\<forall>pat \<in> set pats. fst pat \<noteq> [] \<and> named (fst pat)" using Cons.prems by simp
  show ?case
    apply (simp only: fp8_loop.simps fp8_body_eq [OF p] prod.case sum.case Cons.IH [OF rest])
    apply (simp add: spec_rewrite_def)
    done
qed

lemma fp8_patterns_ok: "\<forall>pat \<in> set fp8_patterns. fst pat \<noteq> [] \<and> named (fst pat)"
  by (simp add: fp8_patterns_def named_def split_def index_def)

lemma fp8_loop_patterns:
  "fp8_loop filepath fp8_patterns (content, patched) w =
     (Inr (spec_rewrite (map (\<lambda>p. Guarded (fst p) (snd p)) fp8_patterns) content,
           patched \<or> fp8_report filepath fp8_patterns content \<noteq> []),
      w\<lparr>stdout := stdout w @ fp8_report filepath fp8_patterns content\<rparr>)"
  by (rule fp8_loop_eq [OF fp8_patterns_ok])

lemma re_literal_old_pattern: "re_literal old_pattern = ''< (11, 0)''"
  by (simp add: old_pattern_def)

lemma re_plain_old_pattern: "re_plain old_pattern"
  by (simp add: old_pattern_def re_special_def alnum_def)

subsection \<open>The five ways a patch function ends\<close>

lemma patch_missing:
  assumes "fs w (target u d) = None"
  shows "patch u d w =
     (Inr False, print (''WARNING: '' @ target u d @ '' not found, skipping'') w)"
  using assms
  by (cases u)
     (simp_all add: patch_custom_ops_def patch_mxfp4_def patch_w8a8_utils_def
        patch_matcher_utils_def path_exists_def Let_def)

lemma patch_unreadable:
  assumes "fs w (target u d) = Some f" "\<not> can_read f"
  shows "patch u d w =
     (Inl (if can_open f then UnicodeDecodeError (target u d) else OSError (target u d)), w)"
  using assms
  by (cases u)
     (simp_all add: patch_custom_ops_def patch_mxfp4_def patch_w8a8_utils_def
        patch_matcher_utils_def path_exists_def read_file_def can_read_def Let_def)

lemma markers_clean:
  "CR \<notin> set custom_ops_marker \<and> LF \<notin> set custom_ops_marker"
  "CR \<notin> set mxfp4_marker \<and> LF \<notin> set mxfp4_marker"
  "CR \<notin> set w8a8_marker1 \<and> LF \<notin> set w8a8_marker1"
  "CR \<notin> set w8a8_marker2 \<and> LF \<notin> set w8a8_marker2"
  "CR \<notin> set matcher_marker \<and> LF \<notin> set matcher_marker"
  by (simp_all add: CR_def LF_def custom_ops_marker_def mxfp4_marker_def w8a8_marker1_def
      w8a8_marker2_def matcher_marker_def)

text \<open>
  No marker has a line end in it, so the already-patched test gives the same on the
  content of a file and on the text read from it.
\<close>

lemma already_patched_read:
  "already_patched u (universal_newlines s) = already_patched u s"
  using markers_clean by (cases u) (simp_all add: contains_universal_newlines)

lemma patch_skip:
  assumes "fs w (target u d) = Some f" "can_read f" "already_patched u (universal_newlines (data f))"
  shows "patch u d w =
     (Inr True, w\<lparr>trace := trace w @ [Read (target u d)],
                  stdout := stdout w @ [''SKIP: '' @ target u d @ '' already patched'']\<rparr>)"
  using assms
  by (cases u)
     (simp_all add: patch_custom_ops_def patch_mxfp4_def patch_w8a8_utils_def
        patch_matcher_utils_def path_exists_def read_file_def can_read_def print_def Let_def)

lemma patch_write:
  assumes "fs w (target u d) = Some f" "can_read f" "\<not> already_patched u (universal_newlines (data f))"
    "can_write f"
  shows "patch u d w =
     (Inr True,
      w\<lparr>fs := (fs w)(target u d \<mapsto> f\<lparr>data := spec_rewrite (rules u) (universal_newlines (data f))\<rparr>),
        trace := trace w @ [Read (target u d), Write (target u d) (spec_rewrite (rules u) (universal_newlines (data f)))],
        stdout := stdout w @ report u (target u d) (universal_newlines (data f))\<rparr>)"
proof (cases u)
  case Custom_ops
  with assms show ?thesis
    by (simp add: patch_custom_ops_def path_exists_def read_file_def can_read_def write_file_def print_def
        spec_rewrite_def spec_apply_rule_def Let_def)
next
  case Mxfp4
  with assms show ?thesis
    by (simp add: patch_mxfp4_def path_exists_def read_file_def can_read_def write_file_def print_def
        spec_rewrite_def spec_apply_rule_def re_search_def re_sub_def Let_def)
next
  case W8a8_utils
  with assms have "\<not> already_patched W8a8_utils (universal_newlines (data f))" "fs w (w8a8_path d) = Some f"
    by simp_all
  with W8a8_utils assms(2,4) show ?thesis
    by (simp del: already_patched.simps
        add: already_patched.simps(3) [symmetric] patch_w8a8_utils_def path_exists_def read_file_def can_read_def write_file_def print_def
        spec_rewrite_def spec_apply_rule_def Let_def)
next
  case Matcher_utils
  with assms show ?thesis
    by (simp add: patch_matcher_utils_def path_exists_def read_file_def can_read_def write_file_def print_def
        fp8_loop_patterns spec_rewrite_def spec_apply_rule_def Let_def)
qed

lemma patch_unwritable:
  assumes "fs w (target u d) = Some f" "can_read f" "\<not> already_patched u (universal_newlines (data f))"
    "\<not> can_write f"
  shows "patch u d w =
     (Inl (OSError (target u d)),
      w\<lparr>trace := trace w @ [Read (target u d)],
        stdout := stdout w @ report u (target u d) (universal_newlines (data f))\<rparr>)"
proof (cases u)
  case Custom_ops
  with assms show ?thesis
    by (simp add: patch_custom_ops_def path_exists_def read_file_def can_read_def write_file_def print_def
        spec_rewrite_def spec_apply_rule_def Let_def)
next
  case Mxfp4
  with assms show ?thesis
    by (simp add: patch_mxfp4_def path_exists_def read_file_def can_read_def write_file_def print_def
        spec_rewrite_def spec_apply_rule_def re_search_def re_sub_def Let_def)
next
  case W8a8_utils
  with assms have "\<not> already_patched W8a8_utils (universal_newlines (data f))" "fs w (w8a8_path d) = Some f"
    by simp_all
  with W8a8_utils assms(2,4) show ?thesis
    by (simp del: already_patched.simps
        add: already_patched.simps(3) [symmetric] patch_w8a8_utils_def path_exists_def read_file_def can_read_def write_file_def print_def
        spec_rewrite_def spec_apply_rule_def Let_def)
next
  case Matcher_utils
  with assms show ?thesis
    by (simp add: patch_matcher_utils_def path_exists_def read_file_def can_read_def write_file_def print_def
        fp8_loop_patterns spec_rewrite_def spec_apply_rule_def Let_def)
qed

section \<open>Properties\<close>

subsection \<open>A target file that is absent\<close>

text \<open>
  C7, as the code has it. The existence test is \<^verbatim>\<open>os.path.exists\<close>: when the target path
  does not exist, each patch function prints its warning and returns \<open>False\<close> at once. It
  raises nothing, reads nothing and writes nothing: the file system and the trace are as
  before, and one line has been printed.
\<close>

theorem missing_target_skipped:
  assumes "fs w (target u d) = None"
  shows "fst (patch u d w) = Inr False
       \<and> fs (snd (patch u d w)) = fs w
       \<and> trace (snd (patch u d w)) = trace w
       \<and> stdout (snd (patch u d w)) =
           stdout w @ [''WARNING: '' @ target u d @ '' not found, skipping'']"
  by (simp add: patch_missing [OF assms] print_def)

theorem missing_target_skipped_witness:
  "fs (world_of Map.empty) (target Mxfp4 ''/build/vllm'') = None
   \<and> fst (patch Mxfp4 ''/build/vllm'' (world_of Map.empty)) = Inr False
   \<and> trace (snd (patch Mxfp4 ''/build/vllm'' (world_of Map.empty))) = []
   \<and> stdout (snd (patch Mxfp4 ''/build/vllm'' (world_of Map.empty))) =
       [''WARNING: /build/vllm/vllm/model_executor/layers/quantization/mxfp4.py not found, skipping'']"
  using missing_target_skipped [of "world_of Map.empty" Mxfp4 "''/build/vllm''"]
  by (simp add: world_of_def mxfp4_path_def path_join_def suffix_to_prefix)

text \<open>
  The claim as stated speaks of a path that is not an existing readable file. A file that
  exists and cannot be opened for reading passes the existence test; the read then raises
  and the function returns nothing.
\<close>

theorem unreadable_target_raises:
  "fs (world_of [target Custom_ops ''/build/vllm'' \<mapsto>
         locked_file ''x = 1''])
      (target Custom_ops ''/build/vllm'')
     = Some (locked_file ''x = 1'')
   \<and> \<not> can_read (locked_file ''x = 1'')
   \<and> fst (patch Custom_ops ''/build/vllm''
         (world_of [target Custom_ops ''/build/vllm'' \<mapsto>
            locked_file ''x = 1'']))
     = Inl (OSError ''/build/vllm/vllm/_custom_ops.py'')
   \<and> fst (patch Custom_ops ''/build/vllm''
         (world_of [target Custom_ops ''/build/vllm'' \<mapsto>
            locked_file ''x = 1'']))
     \<noteq> Inr False"
  by (simp add: world_of_def locked_file_def can_read_def patch_custom_ops_def
      custom_ops_path_def path_join_def suffix_to_prefix path_exists_def read_file_def Let_def)

subsection \<open>A target file that is already patched\<close>

text \<open>
  C6. When the target file can be read and the already-patched test of the unit holds of
  its text, the function returns \<open>True\<close> after printing the SKIP line; the file system is
  unchanged and the only effect recorded is the read, so nothing was written.
\<close>

theorem already_patched_skipped:
  assumes "fs w (target u d) = Some f" "can_read f" "already_patched u (data f)"
  shows "fst (patch u d w) = Inr True
       \<and> fs (snd (patch u d w)) = fs w
       \<and> trace (snd (patch u d w)) = trace w @ [Read (target u d)]
       \<and> stdout (snd (patch u d w)) =
           stdout w @ [''SKIP: '' @ target u d @ '' already patched'']"
proof -
  from assms(3) have "already_patched u (universal_newlines (data f))"
    by (simp add: already_patched_read)
  from patch_skip [OF assms(1,2) this] show ?thesis by simp
qed

theorem already_patched_skipped_witness:
  "fs (world_of [target Mxfp4 ''/v'' \<mapsto> plain_file ''if cap <= (12, 1):''])
      (target Mxfp4 ''/v'') = Some (plain_file ''if cap <= (12, 1):'')
   \<and> can_read (plain_file ''if cap <= (12, 1):'')
   \<and> already_patched Mxfp4 (data (plain_file ''if cap <= (12, 1):''))
   \<and> fst (patch Mxfp4 ''/v''
        (world_of [target Mxfp4 ''/v'' \<mapsto> plain_file ''if cap <= (12, 1):''])) = Inr True
   \<and> fs (snd (patch Mxfp4 ''/v''
        (world_of [target Mxfp4 ''/v'' \<mapsto> plain_file ''if cap <= (12, 1):''])))
        (target Mxfp4 ''/v'') = Some (plain_file ''if cap <= (12, 1):'')
   \<and> trace (snd (patch Mxfp4 ''/v''
        (world_of [target Mxfp4 ''/v'' \<mapsto> plain_file ''if cap <= (12, 1):''])))
       = [Read (target Mxfp4 ''/v'')]"
  using already_patched_skipped
    [of "world_of [target Mxfp4 ''/v'' \<mapsto> plain_file ''if cap <= (12, 1):'']"
        Mxfp4 "''/v''" "plain_file ''if cap <= (12, 1):''"]
  by (simp add: world_of_def plain_file_def can_read_def mxfp4_marker_def)

subsection \<open>What the rules do to the text\<close>

lemma join_Cons: "ys \<noteq> [] \<Longrightarrow> join sep (x # ys) = x @ sep @ join sep ys"
  by (cases ys) simp_all

lemma join_split_from:
  "join new (split_from old acc s) = rev acc @ replace_from old new s"
  by (induction old acc s rule: split_from.induct)
     (simp_all add: join_Cons split_from_nonempty)

text \<open>
  The two readings of ``replace all occurrences'' agree: \<^verbatim>\<open>s.replace(old, new)\<close> is
  \<^verbatim>\<open>new.join(s.split(old))\<close>.
\<close>

lemma replace_join_split:
  "old \<noteq> [] \<Longrightarrow> split old s = Inr pieces \<Longrightarrow> replace old new s = join new pieces"
  using join_split_from [of new old "[]" s] by (auto simp: split_def replace_def)

lemma applies_contains: "applies r content \<Longrightarrow> contains (search r) content"
  by (cases r) (auto simp: applies.simps(2))

lemma spec_rewrite_Cons:
  "spec_rewrite (r # rs) content = spec_rewrite rs (spec_apply_rule r content)"
  by (simp add: spec_rewrite_def)

lemma no_hits_same: "True \<notin> set (hits rs content) \<Longrightarrow> spec_rewrite rs content = content"
proof (induction rs arbitrary: content)
  case Nil
  then show ?case by (simp add: spec_rewrite_def)
next
  case (Cons r rs)
  then have "\<not> applies r content" by auto
  then have same: "spec_apply_rule r content = content" by (simp add: spec_apply_rule_def)
  with Cons show ?case by (simp add: spec_rewrite_Cons)
qed

lemma absent_no_hits:
  "\<forall>r \<in> set rs. \<not> contains (search r) content \<Longrightarrow> True \<notin> set (hits rs content)"
proof (induction rs arbitrary: content)
  case Nil
  then show ?case by simp
next
  case (Cons r rs)
  then have "\<not> applies r content" using applies_contains by auto
  then have "spec_apply_rule r content = content" "\<not> applies r content"
    by (simp_all add: spec_apply_rule_def)
  with Cons show ?case by simp
qed

lemma node_data_same: "f\<lparr>data := data f\<rparr> = f"
  by simp

subsection \<open>A target file in which nothing is found\<close>

text \<open>
  C10, as the code has it. The target file can be read and written, and the text read from
  it (its content with every CR LF and every CR read as LF) does not pass the
  already-patched test and contains the search text of none of the unit's rules. Then the
  function still writes the file: the trace shows the read and then a write, and what is
  written is the text read. So the file then holds its content with the line ends
  translated; when the content has no carriage return the file system is what it was.
  The function returns \<open>True\<close>.
\<close>

theorem nothing_found_text_written_back:
  assumes "fs w (target u d) = Some f" "can_read f" "can_write f"
    "\<not> already_patched u (universal_newlines (data f))"
    "\<forall>r \<in> set (rules u). \<not> contains (search r) (universal_newlines (data f))"
  shows "fst (patch u d w) = Inr True
       \<and> trace (snd (patch u d w)) =
           trace w @ [Read (target u d), Write (target u d) (universal_newlines (data f))]
       \<and> fs (snd (patch u d w)) = (fs w)(target u d \<mapsto> f\<lparr>data := universal_newlines (data f)\<rparr>)
       \<and> (CR \<notin> set (data f) \<longrightarrow> fs (snd (patch u d w)) = fs w)"
proof -
  have same: "spec_rewrite (rules u) (universal_newlines (data f)) = universal_newlines (data f)"
    by (rule no_hits_same [OF absent_no_hits [OF assms(5)]])
  have "(fs w)(target u d \<mapsto> f\<lparr>data := universal_newlines (data f)\<rparr>) = fs w"
    if "CR \<notin> set (data f)"
    using assms(1) that by (simp add: fun_upd_idem universal_newlines_clean)
  then show ?thesis
    by (simp add: patch_write [OF assms(1,2,4,3)] same)
qed

theorem nothing_found_text_written_back_witness:
  "fs (world_of [target Custom_ops ''/v'' \<mapsto> plain_file ''import torch''])
      (target Custom_ops ''/v'') = Some (plain_file ''import torch'')
   \<and> can_read (plain_file ''import torch'') \<and> can_write (plain_file ''import torch'')
   \<and> CR \<notin> set (data (plain_file ''import torch''))
   \<and> \<not> already_patched Custom_ops (universal_newlines (data (plain_file ''import torch'')))
   \<and> list_all (\<lambda>r. \<not> contains (search r) (universal_newlines (data (plain_file ''import torch''))))
        (rules Custom_ops)
   \<and> fst (patch Custom_ops ''/v''
        (world_of [target Custom_ops ''/v'' \<mapsto> plain_file ''import torch''])) = Inr True
   \<and> trace (snd (patch Custom_ops ''/v''
        (world_of [target Custom_ops ''/v'' \<mapsto> plain_file ''import torch''])))
       = [Read (target Custom_ops ''/v''), Write (target Custom_ops ''/v'') ''import torch'']
   \<and> fs (snd (patch Custom_ops ''/v''
        (world_of [target Custom_ops ''/v'' \<mapsto> plain_file ''import torch''])))
       = fs (world_of [target Custom_ops ''/v'' \<mapsto> plain_file ''import torch''])"
proof -
  let ?f = "plain_file ''import torch''"
  let ?w = "world_of [target Custom_ops ''/v'' \<mapsto> ?f]"
  have clean: "CR \<notin> set (data ?f)"
    by (simp add: plain_file_def CR_def)
  then have rd: "universal_newlines (data ?f) = ''import torch''"
    by (simp add: universal_newlines_clean) (simp add: plain_file_def)
  have h1: "fs ?w (target Custom_ops ''/v'') = Some ?f"
    by (simp add: world_of_def)
  have h2: "can_read ?f" and h3: "can_write ?f"
    by (simp_all add: plain_file_def can_read_def)
  have h4: "\<not> already_patched Custom_ops (universal_newlines (data ?f))"
    unfolding rd by (simp add: custom_ops_marker_def)
  have h5: "\<forall>r \<in> set (rules Custom_ops). \<not> contains (search r) (universal_newlines (data ?f))"
    unfolding rd by (simp add: custom_ops_old_def custom_ops_old2_def)
  then have h5': "list_all (\<lambda>r. \<not> contains (search r) (universal_newlines (data ?f)))
      (rules Custom_ops)"
    by (simp only: list_all_iff)
  note run = nothing_found_text_written_back [OF h1 h2 h3 h4 h5]
  from run have c1: "fst (patch Custom_ops ''/v'' ?w) = Inr True"
    by (rule conjunct1)
  from run have c2: "trace (snd (patch Custom_ops ''/v'' ?w)) =
      trace ?w @ [Read (target Custom_ops ''/v''),
                  Write (target Custom_ops ''/v'') (universal_newlines (data ?f))]"
    by (elim conjE)
  then have c2': "trace (snd (patch Custom_ops ''/v'' ?w)) =
      [Read (target Custom_ops ''/v''), Write (target Custom_ops ''/v'') ''import torch'']"
    unfolding rd by (simp add: world_of_def)
  from run clean have c3: "fs (snd (patch Custom_ops ''/v'' ?w)) = fs ?w"
    by blast
  from h1 h2 h3 clean h4 h5' c1 c2' c3 show ?thesis
    by (intro conjI)
qed

text \<open>
  The claim as stated has the bytes of the file unchanged. A file that holds
  \<^verbatim>\<open>import torch\<close> and a CR LF line end has nothing to patch, in its content and in the
  text read from it; the function writes the text read, and the file then ends in LF.
\<close>

theorem crlf_file_rewritten:
  "\<not> already_patched Custom_ops (''import torch'' @ [CR, LF])
   \<and> list_all (\<lambda>r. \<not> contains (search r) (''import torch'' @ [CR, LF])) (rules Custom_ops)
   \<and> fs (snd (patch Custom_ops ''/v''
        (world_of [target Custom_ops ''/v'' \<mapsto> plain_file (''import torch'' @ [CR, LF])])))
        (target Custom_ops ''/v'') = Some (plain_file (''import torch'' @ [LF]))
   \<and> ''import torch'' @ [LF] \<noteq> ''import torch'' @ [CR, LF]"
proof -
  let ?f = "plain_file (''import torch'' @ [CR, LF])"
  let ?w = "world_of [target Custom_ops ''/v'' \<mapsto> ?f]"
  have rd: "universal_newlines (data ?f) = ''import torch'' @ [LF]"
    by (simp add: plain_file_def CR_def LF_def)
  have a: "\<not> already_patched Custom_ops (''import torch'' @ [CR, LF])"
    by (simp add: custom_ops_marker_def CR_def LF_def)
  have b: "list_all (\<lambda>r. \<not> contains (search r) (''import torch'' @ [CR, LF])) (rules Custom_ops)"
    by (simp add: custom_ops_old_def custom_ops_old2_def CR_def LF_def)
  have h1: "fs ?w (target Custom_ops ''/v'') = Some ?f"
    by (simp add: world_of_def)
  have h2: "can_read ?f" and h3: "can_write ?f"
    by (simp_all add: plain_file_def can_read_def)
  have h4: "\<not> already_patched Custom_ops (universal_newlines (data ?f))"
    unfolding rd by (simp add: custom_ops_marker_def LF_def)
  have rw: "spec_rewrite (rules Custom_ops) (''import torch'' @ [LF]) = ''import torch'' @ [LF]"
    by (simp add: spec_rewrite_def spec_apply_rule_def custom_ops_old_def custom_ops_old2_def
        LF_def)
  from patch_write [OF h1 h2 h4 h3]
  have c: "fs (snd (patch Custom_ops ''/v'' ?w)) (target Custom_ops ''/v'') =
      Some (plain_file (''import torch'' @ [LF]))"
    unfolding rd rw by (simp add: plain_file_def)
  have d: "''import torch'' @ [LF] \<noteq> ''import torch'' @ [CR, LF]"
    by simp
  from a b c d show ?thesis by (intro conjI)
qed

subsection \<open>Reading files without carriage returns, and with DOS line ends\<close>

lemma universal_newlines_Cons: "c \<noteq> CR \<Longrightarrow> universal_newlines (c # cs) = c # universal_newlines cs"
  by (cases cs) simp_all

lemma universal_newlines_dos_text: "CR \<notin> set s \<Longrightarrow> universal_newlines (dos_text s) = s"
proof (induction s)
  case Nil
  then show ?case by simp
next
  case (Cons a s)
  then have "a \<noteq> CR" "universal_newlines (dos_text s) = s" by auto
  then show ?case by (simp add: universal_newlines_Cons)
qed

lemma read_plain_file:
  "CR \<notin> set s \<Longrightarrow> universal_newlines (data (plain_file s)) = s"
  by (simp add: plain_file_def universal_newlines_clean)

lemma plain_file_access: "can_read (plain_file s)" "can_write (plain_file s)"
  by (simp_all add: plain_file_def can_read_def)

lemma import_torch_clean: "CR \<notin> set ''import torch''"
  by (simp add: CR_def)

subsection \<open>The write-back\<close>

text \<open>
  C4, as the code has it. The write is not conditional on a rule having matched: whenever
  the target file can be read and written and its content does not pass the
  already-patched test, the function writes the file once, after the one read, with the
  text that the rules produce from the text read, and returns \<open>True\<close>; so it does also
  when no rule applied.
\<close>

theorem unpatched_target_always_written:
  assumes "fs w (target u d) = Some f" "can_read f" "can_write f"
    "\<not> already_patched u (data f)"
  shows "fst (patch u d w) = Inr True
       \<and> trace (snd (patch u d w)) =
           trace w @ [Read (target u d),
                      Write (target u d) (spec_rewrite (rules u) (universal_newlines (data f)))]
       \<and> fs (snd (patch u d w)) (target u d) =
           Some (f\<lparr>data := spec_rewrite (rules u) (universal_newlines (data f))\<rparr>)"
proof -
  from assms(4) have "\<not> already_patched u (universal_newlines (data f))"
    by (simp add: already_patched_read)
  from patch_write [OF assms(1,2) this assms(3)] show ?thesis by simp
qed

theorem unpatched_target_always_written_witness:
  "fs (world_of [target W8a8_utils ''/v'' \<mapsto> plain_file ''import torch''])
      (target W8a8_utils ''/v'') = Some (plain_file ''import torch'')
   \<and> can_read (plain_file ''import torch'') \<and> can_write (plain_file ''import torch'')
   \<and> \<not> already_patched W8a8_utils (data (plain_file ''import torch''))
   \<and> hits (rules W8a8_utils) ''import torch'' = [False, False]
   \<and> fst (patch W8a8_utils ''/v''
        (world_of [target W8a8_utils ''/v'' \<mapsto> plain_file ''import torch''])) = Inr True
   \<and> trace (snd (patch W8a8_utils ''/v''
        (world_of [target W8a8_utils ''/v'' \<mapsto> plain_file ''import torch''])))
       = [Read (target W8a8_utils ''/v''), Write (target W8a8_utils ''/v'') ''import torch'']"
proof -
  let ?f = "plain_file ''import torch''"
  let ?w = "world_of [target W8a8_utils ''/v'' \<mapsto> ?f]"
  have h1: "fs ?w (target W8a8_utils ''/v'') = Some ?f"
    by (simp add: world_of_def)
  have h4: "\<not> already_patched W8a8_utils (data ?f)"
    by (simp add: plain_file_def w8a8_marker1_def)
  have h5: "hits (rules W8a8_utils) ''import torch'' = [False, False]"
    by (simp add: w8a8_old_def w8a8_old2_def spec_apply_rule_def)
  have rw: "spec_rewrite (rules W8a8_utils) (universal_newlines (data ?f)) = ''import torch''"
    unfolding read_plain_file [OF import_torch_clean]
    by (simp add: spec_rewrite_def spec_apply_rule_def w8a8_old_def w8a8_old2_def)
  note run = unpatched_target_always_written [OF h1 plain_file_access h4]
  from run have c1: "fst (patch W8a8_utils ''/v'' ?w) = Inr True"
    by (rule conjunct1)
  from run have "trace (snd (patch W8a8_utils ''/v'' ?w)) =
      trace ?w @ [Read (target W8a8_utils ''/v''),
        Write (target W8a8_utils ''/v'')
          (spec_rewrite (rules W8a8_utils) (universal_newlines (data ?f)))]"
    by (elim conjE)
  then have c2: "trace (snd (patch W8a8_utils ''/v'' ?w)) =
      [Read (target W8a8_utils ''/v''), Write (target W8a8_utils ''/v'') ''import torch'']"
    unfolding rw by (simp add: world_of_def)
  from h1 plain_file_access h4 h5 c1 c2 show ?thesis
    by (intro conjI)
qed

text \<open>
  The claim as stated has no write when no rule matched. On a file that holds
  \<^verbatim>\<open>import torch\<close> the already-patched test fails and neither rule of
  \<^verbatim>\<open>patch_custom_ops\<close> applies, and the file is written all the same.
\<close>

theorem no_match_still_writes:
  "\<not> already_patched Custom_ops ''import torch''
   \<and> hits (rules Custom_ops) ''import torch'' = [False, False]
   \<and> trace (snd (patch Custom_ops ''/v''
        (world_of [target Custom_ops ''/v'' \<mapsto> plain_file ''import torch''])))
       = [Read (target Custom_ops ''/v''), Write (target Custom_ops ''/v'') ''import torch'']"
proof -
  let ?f = "plain_file ''import torch''"
  let ?w = "world_of [target Custom_ops ''/v'' \<mapsto> ?f]"
  have a: "\<not> already_patched Custom_ops ''import torch''"
    by (simp add: custom_ops_marker_def)
  have b: "hits (rules Custom_ops) ''import torch'' = [False, False]"
    by (simp add: custom_ops_old_def custom_ops_old2_def spec_apply_rule_def)
  have h1: "fs ?w (target Custom_ops ''/v'') = Some ?f"
    by (simp add: world_of_def)
  have h4: "\<not> already_patched Custom_ops (universal_newlines (data ?f))"
    unfolding read_plain_file [OF import_torch_clean] by (rule a)
  have rw: "spec_rewrite (rules Custom_ops) (universal_newlines (data ?f)) = ''import torch''"
    unfolding read_plain_file [OF import_torch_clean]
    by (simp add: spec_rewrite_def spec_apply_rule_def custom_ops_old_def custom_ops_old2_def)
  from patch_write [OF h1 plain_file_access(1) h4 plain_file_access(2)]
  have c: "trace (snd (patch Custom_ops ''/v'' ?w)) =
      [Read (target Custom_ops ''/v''), Write (target Custom_ops ''/v'') ''import torch'']"
    unfolding rw by (simp add: world_of_def)
  from a b c show ?thesis by (intro conjI)
qed

subsection \<open>Rule application\<close>

text \<open>
  C5, as the code has it. Each patch function is the generic executor run on the rule list
  of its unit and on the text read from the file, which is the content of the file with
  every CR LF and every CR read as LF. On a target file that can be read and written and
  whose text does not pass the already-patched test, the function returns \<open>True\<close>, leaves
  in the file the text that the rules produce when tried one after the other, each on the
  text its predecessors left (a rule that does not apply leaves the text as it is and the
  next one is tried), records one read and one write, and prints the lines of \<open>report\<close>:
  so the file is written when only some of the rules apply. A plain rule applies when its
  search text occurs, and then every occurrence is replaced. The three rules of the loop
  in \<^verbatim>\<open>patch_matcher_utils\<close> are guarded: such a rule applies only when, in addition,
  the text between the last line feed before the first occurrence and that occurrence
  does not contain \<^verbatim>\<open>hasattr\<close>.
\<close>

theorem rules_applied_in_order:
  assumes "fs w (target u d) = Some f" "can_read f" "can_write f"
    "\<not> already_patched u (universal_newlines (data f))"
  shows "patch u d w =
     (Inr True,
      w\<lparr>fs := (fs w)(target u d \<mapsto>
               f\<lparr>data := spec_rewrite (rules u) (universal_newlines (data f))\<rparr>),
        trace := trace w @
          [Read (target u d),
           Write (target u d) (spec_rewrite (rules u) (universal_newlines (data f)))],
        stdout := stdout w @ report u (target u d) (universal_newlines (data f))\<rparr>)"
  by (rule patch_write [OF assms(1,2,4,3)])

lemma custom_ops_old2_unmarked: "\<not> contains custom_ops_marker custom_ops_old2"
  by (simp add: custom_ops_marker_def custom_ops_old2_def)

lemma custom_ops_old2_first: "\<not> contains custom_ops_old custom_ops_old2"
  by (simp add: custom_ops_old_def custom_ops_old2_def)

lemma custom_ops_old2_second: "contains custom_ops_old2 custom_ops_old2"
  by (simp add: contains_sublist)

lemma custom_ops_old2_replaced:
  "replace custom_ops_old2 custom_ops_new2 custom_ops_old2 = custom_ops_new2"
  by (simp add: replace_def custom_ops_old2_def)

lemma custom_ops_old2_hits: "hits (rules Custom_ops) custom_ops_old2 = [False, True]"
  by (simp add: custom_ops_old2_first custom_ops_old2_second spec_apply_rule_def)

lemma custom_ops_old2_clean: "CR \<notin> set custom_ops_old2"
  by (simp add: custom_ops_old2_def CR_def)

text \<open>
  An instance with a partial match and DOS line ends: a file for \<^verbatim>\<open>patch_custom_ops\<close>
  that holds the second search text only, each of its lines ended by CR LF. The text read
  has the line ends of the search text; the first rule is reported missing, the second is
  applied, the file is written and the result is \<open>True\<close>.
\<close>

theorem rules_applied_in_order_witness:
  "fs (world_of [target Custom_ops ''/v'' \<mapsto> plain_file (dos_text custom_ops_old2)])
      (target Custom_ops ''/v'') = Some (plain_file (dos_text custom_ops_old2))
   \<and> can_read (plain_file (dos_text custom_ops_old2))
   \<and> can_write (plain_file (dos_text custom_ops_old2))
   \<and> universal_newlines (data (plain_file (dos_text custom_ops_old2))) = custom_ops_old2
   \<and> \<not> already_patched Custom_ops custom_ops_old2
   \<and> hits (rules Custom_ops) custom_ops_old2 = [False, True]
   \<and> fst (patch Custom_ops ''/v''
        (world_of [target Custom_ops ''/v'' \<mapsto> plain_file (dos_text custom_ops_old2)])) = Inr True
   \<and> fs (snd (patch Custom_ops ''/v''
        (world_of [target Custom_ops ''/v'' \<mapsto> plain_file (dos_text custom_ops_old2)])))
        (target Custom_ops ''/v'') = Some (plain_file custom_ops_new2)
   \<and> trace (snd (patch Custom_ops ''/v''
        (world_of [target Custom_ops ''/v'' \<mapsto> plain_file (dos_text custom_ops_old2)])))
       = [Read (target Custom_ops ''/v''), Write (target Custom_ops ''/v'') custom_ops_new2]
   \<and> stdout (snd (patch Custom_ops ''/v''
        (world_of [target Custom_ops ''/v'' \<mapsto> plain_file (dos_text custom_ops_old2)])))
       = [''WARNING: Could not find cutlass_scaled_mm_supports_fp8 pattern in ''
            @ target Custom_ops ''/v'',
          ''PATCHED: cutlass_scaled_mm_supports_block_fp8 in '' @ target Custom_ops ''/v'']"
proof -
  let ?f = "plain_file (dos_text custom_ops_old2)"
  let ?w = "world_of [target Custom_ops ''/v'' \<mapsto> ?f]"
  have rd: "universal_newlines (data ?f) = custom_ops_old2"
    by (simp add: plain_file_def universal_newlines_dos_text [OF custom_ops_old2_clean])
  have h1: "fs ?w (target Custom_ops ''/v'') = Some ?f"
    by (simp add: world_of_def)
  have um: "\<not> already_patched Custom_ops custom_ops_old2"
    by (simp add: custom_ops_old2_unmarked)
  then have h4: "\<not> already_patched Custom_ops (universal_newlines (data ?f))"
    unfolding rd .
  have rw: "spec_rewrite (rules Custom_ops) custom_ops_old2 = custom_ops_new2"
    by (simp add: spec_rewrite_def spec_apply_rule_def custom_ops_old2_first
        custom_ops_old2_second custom_ops_old2_replaced)
  have rp: "report Custom_ops p custom_ops_old2 =
      [''WARNING: Could not find cutlass_scaled_mm_supports_fp8 pattern in '' @ p,
       ''PATCHED: cutlass_scaled_mm_supports_block_fp8 in '' @ p]" for p
    by (simp add: spec_apply_rule_def custom_ops_old2_first custom_ops_old2_second)
  note run = rules_applied_in_order [OF h1 plain_file_access h4, unfolded rd rw rp]
  have c1: "fst (patch Custom_ops ''/v'' ?w) = Inr True"
    by (simp only: run fst_conv)
  have c2: "fs (snd (patch Custom_ops ''/v'' ?w)) (target Custom_ops ''/v'') =
      Some (plain_file custom_ops_new2)"
    by (simp only: run snd_conv) (simp add: plain_file_def)
  have c3: "trace (snd (patch Custom_ops ''/v'' ?w)) =
      [Read (target Custom_ops ''/v''), Write (target Custom_ops ''/v'') custom_ops_new2]"
    by (simp only: run snd_conv) (simp add: world_of_def)
  have c4: "stdout (snd (patch Custom_ops ''/v'' ?w)) =
      [''WARNING: Could not find cutlass_scaled_mm_supports_fp8 pattern in ''
         @ target Custom_ops ''/v'',
       ''PATCHED: cutlass_scaled_mm_supports_block_fp8 in '' @ target Custom_ops ''/v'']"
    by (simp only: run snd_conv) (simp add: world_of_def)
  from h1 plain_file_access rd um custom_ops_old2_hits c1 c2 c3 c4 show ?thesis
    by (intro conjI)
qed

lemma wrapped_line_search:
  "contains ''torch.ops._C.static_scaled_fp8_quant.default'' wrapped_line"
  unfolding contains_append_iff wrapped_line_def
  by (rule exI [of _ "take 74 wrapped_line"], rule exI [of _ "[]"]) (simp add: wrapped_line_def)

lemma wrapped_line_unmarked: "\<not> contains matcher_marker wrapped_line"
  by (simp add: matcher_marker_def wrapped_line_def)

lemma wrapped_line_silu: "\<not> contains matcher_old wrapped_line"
  by (simp add: matcher_old_def wrapped_line_def)

lemma wrapped_line_clean: "CR \<notin> set wrapped_line"
  by (simp add: wrapped_line_def CR_def)

lemma wrapped_line_guard:
  "fp8_cond ''torch.ops._C.static_scaled_fp8_quant.default'' wrapped_line = Inr False"
  by (simp add: wrapped_line_def fp8_cond_def line_before_def split_def index_def)

lemma wrapped_line_others:
  "\<not> contains ''torch.ops._C.dynamic_scaled_fp8_quant.default'' wrapped_line"
  "\<not> contains ''torch.ops._C.dynamic_per_token_scaled_fp8_quant.default'' wrapped_line"
  by (simp_all add: wrapped_line_def)

lemma wrapped_line_held:
  "\<not> applies (Guarded ''torch.ops._C.static_scaled_fp8_quant.default'' new) wrapped_line"
  "\<not> applies (Guarded ''torch.ops._C.dynamic_scaled_fp8_quant.default'' new) wrapped_line"
  "\<not> applies (Guarded ''torch.ops._C.dynamic_per_token_scaled_fp8_quant.default'' new) wrapped_line"
proof -
  show "\<not> applies (Guarded ''torch.ops._C.static_scaled_fp8_quant.default'' new) wrapped_line"
    using fp8_cond_applies [of "''torch.ops._C.static_scaled_fp8_quant.default''" wrapped_line new]
      wrapped_line_guard by simp
qed (simp_all add: applies.simps(2) wrapped_line_others)

lemma wrapped_line_rewrite: "spec_rewrite (rules Matcher_utils) wrapped_line = wrapped_line"
  by (simp add: spec_rewrite_def spec_apply_rule_def fp8_patterns_def wrapped_line_silu
      wrapped_line_held)

lemma wrapped_line_report:
  "report Matcher_utils p wrapped_line = [''WARNING: No patterns found to patch in '' @ p]"
  by (simp add: spec_apply_rule_def fp8_patterns_def wrapped_line_silu wrapped_line_held)

text \<open>
  The claim as stated has every rule whose search text occurs replace its occurrences. In
  \<^verbatim>\<open>patch_matcher_utils\<close> the search text of the first rule of the loop occurs in
  \<open>wrapped_line\<close>, after a \<^verbatim>\<open>hasattr\<close> on the same line: the guard holds the rule back,
  the file keeps its text and the function reports that it found nothing.
\<close>

theorem guarded_rule_not_applied:
  "contains (fst (fp8_patterns ! 0)) wrapped_line
   \<and> \<not> already_patched Matcher_utils wrapped_line
   \<and> fst (patch Matcher_utils ''/v''
        (world_of [target Matcher_utils ''/v'' \<mapsto> plain_file wrapped_line])) = Inr True
   \<and> fs (snd (patch Matcher_utils ''/v''
        (world_of [target Matcher_utils ''/v'' \<mapsto> plain_file wrapped_line])))
        (target Matcher_utils ''/v'') = Some (plain_file wrapped_line)
   \<and> stdout (snd (patch Matcher_utils ''/v''
        (world_of [target Matcher_utils ''/v'' \<mapsto> plain_file wrapped_line])))
       = [''WARNING: No patterns found to patch in '' @ target Matcher_utils ''/v'']"
proof -
  have found: "contains (fst (fp8_patterns ! 0)) wrapped_line"
    using wrapped_line_search by (simp add: fp8_patterns_def)
  have run: "patch Matcher_utils ''/v''
        (world_of [target Matcher_utils ''/v'' \<mapsto> plain_file wrapped_line]) =
     (Inr True,
      (world_of [target Matcher_utils ''/v'' \<mapsto> plain_file wrapped_line])
        \<lparr>fs := [target Matcher_utils ''/v'' \<mapsto> plain_file wrapped_line],
          trace := [Read (target Matcher_utils ''/v''),
                    Write (target Matcher_utils ''/v'') wrapped_line],
          stdout := [''WARNING: No patterns found to patch in '' @ target Matcher_utils ''/v'']\<rparr>)"
    using patch_write
      [of "world_of [target Matcher_utils ''/v'' \<mapsto> plain_file wrapped_line]"
          Matcher_utils "''/v''" "plain_file wrapped_line"]
      read_plain_file [OF wrapped_line_clean]
    by (simp add: world_of_def plain_file_def can_read_def wrapped_line_unmarked
        wrapped_line_rewrite wrapped_line_report del: rules.simps report.simps)
  show ?thesis
    by (simp only: run found wrapped_line_unmarked already_patched.simps) simp
qed

subsection \<open>The capability check of \<^verbatim>\<open>mxfp4.py\<close>\<close>

lemma literal_apart_if_cap: "apart ''< (11, 0)'' ''if cap ''"
  by (simp add: apart_def)

lemma re_sub_capability_line:
  "re_sub old_pattern new_pattern (pre @ ''if cap < (11, 0):'' @ post) =
   re_sub old_pattern new_pattern pre @ ''if cap <= (12, 1):''
     @ re_sub old_pattern new_pattern post"
proof -
  have "replace_from ''< (11, 0)'' new_pattern (pre @ ''if cap '' @ (''< (11, 0):'' @ post)) =
        replace_from ''< (11, 0)'' new_pattern pre @ ''if cap ''
          @ replace_from ''< (11, 0)'' new_pattern (''< (11, 0):'' @ post)"
    by (rule replace_from_apart [OF literal_apart_if_cap])
  moreover have "replace_from ''< (11, 0)'' new_pattern (''< (11, 0):'' @ post) =
        new_pattern @ '':'' @ replace_from ''< (11, 0)'' new_pattern post"
    by simp
  ultimately show ?thesis
    by (simp add: re_sub_def replace_def re_literal_old_pattern new_pattern_def)
qed

lemma capability_line_clean:
  "''if cap < (11, 0):'' \<noteq> []" "CR \<notin> set ''if cap < (11, 0):''"
  "LF \<notin> set ''if cap < (11, 0):''"
  by (simp_all add: CR_def LF_def)

text \<open>
  C8, as the code has it. The file of \<^verbatim>\<open>patch_mxfp4\<close> can be read and written, its
  content has the line \<^verbatim>\<open>if cap < (11, 0):\<close> somewhere (\<open>pre\<close> before it, \<open>post\<close> after
  it) and does not contain \<^verbatim>\<open><= (12, 1)\<close>. Then the function returns \<open>True\<close>, prints the
  PATCHED line and writes the file; in the text written the line reads
  \<^verbatim>\<open>if cap <= (12, 1):\<close>. What precedes and what follows the line is written as the
  function read it, that is with every CR LF and every CR as LF, and with the same
  substitution made in it; no other character of it is changed.
\<close>

theorem capability_line_rewritten:
  assumes "fs w (mxfp4_path d) = Some f" "can_read f" "can_write f"
    "data f = pre @ ''if cap < (11, 0):'' @ post"
    "\<not> contains mxfp4_marker (data f)"
  shows "patch_mxfp4 d w =
     (Inr True,
      w\<lparr>fs := (fs w)(mxfp4_path d \<mapsto>
               f\<lparr>data := re_sub old_pattern new_pattern (universal_newlines pre)
                         @ ''if cap <= (12, 1):''
                         @ re_sub old_pattern new_pattern (universal_newlines post)\<rparr>),
        trace := trace w @
          [Read (mxfp4_path d),
           Write (mxfp4_path d)
             (re_sub old_pattern new_pattern (universal_newlines pre)
                @ ''if cap <= (12, 1):''
                @ re_sub old_pattern new_pattern (universal_newlines post))],
        stdout := stdout w @ [''PATCHED: device capability range in '' @ mxfp4_path d]\<rparr>)"
proof -
  have rd: "universal_newlines (data f) =
      universal_newlines pre @ ''if cap < (11, 0):'' @ universal_newlines post"
    unfolding assms(4) by (rule universal_newlines_around [OF capability_line_clean])
  then have "universal_newlines (data f) =
      (universal_newlines pre @ ''if cap '') @ ''< (11, 0)'' @ ('':'' @ universal_newlines post)"
    by simp
  then have found: "contains (re_literal old_pattern) (universal_newlines (data f))"
    unfolding contains_append_iff re_literal_old_pattern by blast
  have rw: "spec_rewrite (rules Mxfp4) (universal_newlines (data f)) =
      re_sub old_pattern new_pattern (universal_newlines pre) @ ''if cap <= (12, 1):''
        @ re_sub old_pattern new_pattern (universal_newlines post)"
    using found re_sub_capability_line [of "universal_newlines pre" "universal_newlines post"]
    by (simp add: spec_rewrite_def spec_apply_rule_def rd re_sub_def)
  have unmarked: "\<not> already_patched Mxfp4 (universal_newlines (data f))"
    using assms(5) by (simp add: already_patched_read del: already_patched.simps) simp
  show ?thesis
    using patch_write [of w Mxfp4 d f] assms(1,2,3) unmarked found
    by (simp add: rw del: rules.simps already_patched.simps)
qed

text \<open>
  An instance: the line indented by four blanks, a line feed and a second line after it.
  The indentation, the line feed and the second line are written as they were.
\<close>

theorem capability_line_rewritten_witness:
  "fs (world_of [mxfp4_path ''/v'' \<mapsto>
         plain_file (''    '' @ ''if cap < (11, 0):'' @ (LF # ''        return True''))])
      (mxfp4_path ''/v'') =
     Some (plain_file (''    '' @ ''if cap < (11, 0):'' @ (LF # ''        return True'')))
   \<and> can_read (plain_file (''    '' @ ''if cap < (11, 0):'' @ (LF # ''        return True'')))
   \<and> can_write (plain_file (''    '' @ ''if cap < (11, 0):'' @ (LF # ''        return True'')))
   \<and> \<not> contains mxfp4_marker
         (data (plain_file (''    '' @ ''if cap < (11, 0):'' @ (LF # ''        return True''))))
   \<and> fst (patch_mxfp4 ''/v''
        (world_of [mxfp4_path ''/v'' \<mapsto>
           plain_file (''    '' @ ''if cap < (11, 0):'' @ (LF # ''        return True''))]))
       = Inr True
   \<and> fs (snd (patch_mxfp4 ''/v''
        (world_of [mxfp4_path ''/v'' \<mapsto>
           plain_file (''    '' @ ''if cap < (11, 0):'' @ (LF # ''        return True''))])))
        (mxfp4_path ''/v'') =
       Some (plain_file (''    if cap <= (12, 1):'' @ (LF # ''        return True'')))
   \<and> stdout (snd (patch_mxfp4 ''/v''
        (world_of [mxfp4_path ''/v'' \<mapsto>
           plain_file (''    '' @ ''if cap < (11, 0):'' @ (LF # ''        return True''))])))
       = [''PATCHED: device capability range in '' @ mxfp4_path ''/v'']"
proof -
  let ?f = "plain_file (''    '' @ ''if cap < (11, 0):'' @ (LF # ''        return True''))"
  let ?w = "world_of [mxfp4_path ''/v'' \<mapsto> ?f]"
  have a: "re_sub old_pattern new_pattern (universal_newlines ''    '') = ''    ''"
    by (simp add: re_sub_def replace_def re_literal_old_pattern CR_def)
  have b: "re_sub old_pattern new_pattern (universal_newlines (LF # ''        return True'')) =
      LF # ''        return True''"
    by (simp add: re_sub_def replace_def re_literal_old_pattern CR_def LF_def)
  have h1: "fs ?w (mxfp4_path ''/v'') = Some ?f"
    by (simp add: world_of_def)
  have h4: "data ?f = ''    '' @ ''if cap < (11, 0):'' @ (LF # ''        return True'')"
    by (simp add: plain_file_def)
  have h5: "\<not> contains mxfp4_marker (data ?f)"
    by (simp add: plain_file_def mxfp4_marker_def CR_def LF_def)
  note run = capability_line_rewritten [OF h1 plain_file_access h4 h5, unfolded a b]
  have c1: "fst (patch_mxfp4 ''/v'' ?w) = Inr True"
    by (simp only: run fst_conv)
  have c2: "fs (snd (patch_mxfp4 ''/v'' ?w)) (mxfp4_path ''/v'') =
      Some (plain_file (''    if cap <= (12, 1):'' @ (LF # ''        return True'')))"
    by (simp only: run snd_conv) (simp add: plain_file_def)
  have c3: "stdout (snd (patch_mxfp4 ''/v'' ?w)) =
      [''PATCHED: device capability range in '' @ mxfp4_path ''/v'']"
    by (simp only: run snd_conv) (simp add: world_of_def)
  from h1 plain_file_access h5 c1 c2 c3 show ?thesis
    by (intro conjI)
qed

text \<open>
  The claim as stated has the white space around the line kept exactly, for any content of
  the file. A file in which the line is indented and ended by CR LF has the substring and
  not the marker; the function writes the line with its indentation and ends it by LF:
  the carriage return is not in the file any more.
\<close>

theorem capability_line_crlf_rewritten:
  "contains ''if cap < (11, 0):'' (''    if cap < (11, 0):'' @ [CR, LF])
   \<and> \<not> contains mxfp4_marker (''    if cap < (11, 0):'' @ [CR, LF])
   \<and> fst (patch_mxfp4 ''/v''
        (world_of [mxfp4_path ''/v'' \<mapsto> plain_file (''    if cap < (11, 0):'' @ [CR, LF])]))
       = Inr True
   \<and> fs (snd (patch_mxfp4 ''/v''
        (world_of [mxfp4_path ''/v'' \<mapsto> plain_file (''    if cap < (11, 0):'' @ [CR, LF])])))
        (mxfp4_path ''/v'') = Some (plain_file (''    if cap <= (12, 1):'' @ [LF]))
   \<and> ''    if cap <= (12, 1):'' @ [LF] \<noteq> ''    if cap <= (12, 1):'' @ [CR, LF]
   \<and> CR \<notin> set (''    if cap <= (12, 1):'' @ [LF])"
proof -
  let ?f = "plain_file (''    if cap < (11, 0):'' @ [CR, LF])"
  let ?w = "world_of [mxfp4_path ''/v'' \<mapsto> ?f]"
  have rd: "universal_newlines (data ?f) = ''    if cap < (11, 0):'' @ [LF]"
    by (simp add: plain_file_def CR_def LF_def)
  have a: "contains ''if cap < (11, 0):'' (''    if cap < (11, 0):'' @ [CR, LF])"
    by (simp add: CR_def LF_def)
  have b: "\<not> contains mxfp4_marker (''    if cap < (11, 0):'' @ [CR, LF])"
    by (simp add: mxfp4_marker_def CR_def LF_def)
  have h1: "fs ?w (target Mxfp4 ''/v'') = Some ?f"
    by (simp add: world_of_def)
  have h4: "\<not> already_patched Mxfp4 (universal_newlines (data ?f))"
    unfolding rd by (simp add: mxfp4_marker_def LF_def)
  have rw: "spec_rewrite (rules Mxfp4) (''    if cap < (11, 0):'' @ [LF]) =
      ''    if cap <= (12, 1):'' @ [LF]"
    by (simp add: spec_rewrite_def spec_apply_rule_def re_literal_old_pattern replace_def
        new_pattern_def LF_def)
  note run = patch_write [OF h1 plain_file_access(1) h4 plain_file_access(2), unfolded rd rw]
  have c: "fst (patch_mxfp4 ''/v'' ?w) = Inr True"
    using run by simp
  have d: "fs (snd (patch_mxfp4 ''/v'' ?w)) (mxfp4_path ''/v'') =
      Some (plain_file (''    if cap <= (12, 1):'' @ [LF]))"
    using run by (simp add: plain_file_def)
  have e: "''    if cap <= (12, 1):'' @ [LF] \<noteq> ''    if cap <= (12, 1):'' @ [CR, LF]"
    by (simp add: CR_def LF_def)
  have f: "CR \<notin> set (''    if cap <= (12, 1):'' @ [LF])"
    by (simp add: CR_def LF_def)
  from a b c d e f show ?thesis by (intro conjI)
qed

subsection \<open>Running a unit twice\<close>

lemma apply_keeps_marker:
  assumes "apart (search r) m" "search r \<noteq> []" "contains m content"
  shows "contains m (spec_apply_rule r content)"
  using assms by (simp add: spec_apply_rule_def replace_def contains_replace_apart)

lemma rewrite_keeps_marker:
  assumes "\<forall>r \<in> set rs. apart (search r) m \<and> search r \<noteq> []" "contains m content"
  shows "contains m (spec_rewrite rs content)"
  using assms
  by (induction rs arbitrary: content) (simp_all add: spec_rewrite_def apply_keeps_marker)

lemma replaced_has_part:
  assumes "old \<noteq> []" "contains old content" "contains m new"
  shows "contains m (replace old new content)"
  using assms contains_replace_from [of old content new] contains_trans [of m new]
  by (simp add: replace_def)

lemma custom_ops_marker_in_new: "contains custom_ops_marker custom_ops_new"
  by (simp add: custom_ops_marker_def custom_ops_new_def)

lemma custom_ops_old2_apart: "apart custom_ops_old2 custom_ops_marker"
  by (simp add: apart_def custom_ops_old2_def custom_ops_marker_def)

lemma w8a8_marker1_in_new: "contains w8a8_marker1 w8a8_new"
  by (simp add: w8a8_marker1_def w8a8_new_def)

lemma w8a8_marker2_in_new: "contains w8a8_marker2 w8a8_new"
  by (simp add: w8a8_marker2_def w8a8_new_def)

lemma w8a8_old2_apart1: "apart w8a8_old2 w8a8_marker1"
  by (simp add: apart_def w8a8_old2_def w8a8_marker1_def)

lemma w8a8_old2_apart2: "apart w8a8_old2 w8a8_marker2"
  by (simp add: apart_def w8a8_old2_def w8a8_marker2_def)

lemma matcher_marker_in_new: "contains matcher_marker matcher_new"
  by (simp add: matcher_marker_def matcher_new_def)

lemma fp8_patterns_apart:
  "\<forall>r \<in> set (map (\<lambda>p. Guarded (fst p) (snd p)) fp8_patterns).
     apart (search r) matcher_marker \<and> search r \<noteq> []"
  by (simp add: fp8_patterns_def apart_def matcher_marker_def)

lemma marker_after_first_rule:
  assumes "applies (hd (rules u)) content"
  shows "already_patched u (spec_rewrite (rules u) content)"
proof (cases u)
  case Custom_ops
  with assms have found: "contains custom_ops_old content" by simp
  have ne: "custom_ops_old \<noteq> []" "search (Plain custom_ops_old2 custom_ops_new2) \<noteq> []"
    by (simp_all add: custom_ops_old_def custom_ops_old2_def)
  have "contains custom_ops_marker (replace custom_ops_old custom_ops_new content)"
    by (rule replaced_has_part [OF ne(1) found custom_ops_marker_in_new])
  then have "contains custom_ops_marker
      (spec_apply_rule (Plain custom_ops_old2 custom_ops_new2)
         (replace custom_ops_old custom_ops_new content))"
    by (intro apply_keeps_marker ne) (simp_all add: custom_ops_old2_apart)
  with Custom_ops found show ?thesis
    by (simp add: spec_rewrite_def spec_apply_rule_def [of "Plain custom_ops_old custom_ops_new"])
next
  case Mxfp4
  with assms have "contains (re_literal old_pattern) content" by simp
  then have "contains mxfp4_marker (replace (re_literal old_pattern) new_pattern content)"
    by (intro replaced_has_part)
       (simp_all add: re_literal_old_pattern mxfp4_marker_def new_pattern_def contains_sublist)
  with Mxfp4 \<open>contains (re_literal old_pattern) content\<close> show ?thesis
    by (simp add: spec_rewrite_def spec_apply_rule_def)
next
  case W8a8_utils
  with assms have found: "contains w8a8_old content" by simp
  have ne: "w8a8_old \<noteq> []" "search (Plain w8a8_old2 w8a8_new2) \<noteq> []"
    by (simp_all add: w8a8_old_def w8a8_old2_def)
  have "contains w8a8_marker1 (replace w8a8_old w8a8_new content)"
    by (rule replaced_has_part [OF ne(1) found w8a8_marker1_in_new])
  then have m1: "contains w8a8_marker1
      (spec_apply_rule (Plain w8a8_old2 w8a8_new2) (replace w8a8_old w8a8_new content))"
    by (intro apply_keeps_marker ne) (simp_all add: w8a8_old2_apart1)
  have "contains w8a8_marker2 (replace w8a8_old w8a8_new content)"
    by (rule replaced_has_part [OF ne(1) found w8a8_marker2_in_new])
  then have m2: "contains w8a8_marker2
      (spec_apply_rule (Plain w8a8_old2 w8a8_new2) (replace w8a8_old w8a8_new content))"
    by (intro apply_keeps_marker ne) (simp_all add: w8a8_old2_apart2)
  from W8a8_utils found m1 m2 show ?thesis
    by (simp add: spec_rewrite_def spec_apply_rule_def [of "Plain w8a8_old w8a8_new"])
next
  case Matcher_utils
  with assms have found: "contains matcher_old content" by simp
  have ne: "matcher_old \<noteq> []" by (simp add: matcher_old_def)
  have "contains matcher_marker (replace matcher_old matcher_new content)"
    by (rule replaced_has_part [OF ne found matcher_marker_in_new])
  then have "contains matcher_marker
      (spec_rewrite (map (\<lambda>p. Guarded (fst p) (snd p)) fp8_patterns)
         (replace matcher_old matcher_new content))"
    by (rule rewrite_keeps_marker [OF fp8_patterns_apart])
  with Matcher_utils found show ?thesis
    by (simp add: spec_rewrite_def spec_apply_rule_def [of "Plain matcher_old matcher_new"])
qed

text \<open>
  C3, as the code has it. The target file can be read and written, its content does not
  pass the already-patched test, and the first rule of the unit applies to the text read
  from it (as it does whenever all the rules apply). The first run then returns \<open>True\<close>
  and leaves in the file the text that the rules produce from the text read; a second run
  on the world the first one left returns \<open>True\<close>, prints the SKIP line, records a read
  and no write, and leaves the file system as the first run left it.
\<close>

theorem second_run_skipped:
  assumes "fs w (target u d) = Some f" "can_read f" "can_write f"
    "\<not> already_patched u (data f)" "applies (hd (rules u)) (universal_newlines (data f))"
    "patch u d w = (r, w1)"
  shows "r = Inr True
       \<and> fs w1 (target u d) =
           Some (f\<lparr>data := spec_rewrite (rules u) (universal_newlines (data f))\<rparr>)
       \<and> stdout w1 = stdout w @ report u (target u d) (universal_newlines (data f))
       \<and> patch u d w1 =
           (Inr True, w1\<lparr>trace := trace w1 @ [Read (target u d)],
                          stdout := stdout w1 @ [''SKIP: '' @ target u d @ '' already patched'']\<rparr>)
       \<and> fs (snd (patch u d w1)) = fs w1"
proof -
  let ?new = "spec_rewrite (rules u) (universal_newlines (data f))"
  from assms(4) have unmarked: "\<not> already_patched u (universal_newlines (data f))"
    by (simp add: already_patched_read)
  from patch_write [OF assms(1,2) unmarked assms(3)] assms(6)
  have first: "r = Inr True"
    and w1: "w1 = w\<lparr>fs := (fs w)(target u d \<mapsto> f\<lparr>data := ?new\<rparr>),
        trace := trace w @ [Read (target u d), Write (target u d) ?new],
        stdout := stdout w @ report u (target u d) (universal_newlines (data f))\<rparr>"
    by simp_all
  have there: "fs w1 (target u d) = Some (f\<lparr>data := ?new\<rparr>)"
    by (simp add: w1)
  have readable: "can_read (f\<lparr>data := ?new\<rparr>)"
    using assms(2) by (simp add: can_read_def)
  have marked: "already_patched u (universal_newlines (data (f\<lparr>data := ?new\<rparr>)))"
    using marker_after_first_rule [OF assms(5)] by (simp add: already_patched_read)
  note second = patch_skip [OF there readable marked]
  show ?thesis
    apply (intro conjI)
        apply (rule first)
       apply (rule there)
      apply (simp add: w1)
     apply (rule second)
    apply (simp add: second)
    done
qed

text \<open>
  An instance with DOS line ends: the capability check followed by CR LF. The first run
  writes the patched line with LF, the second is skipped and leaves that.
\<close>

theorem second_run_skipped_witness:
  "fs (world_of [target Mxfp4 ''/v'' \<mapsto> plain_file (''if cap < (11, 0):'' @ [CR, LF])])
      (target Mxfp4 ''/v'') = Some (plain_file (''if cap < (11, 0):'' @ [CR, LF]))
   \<and> can_read (plain_file (''if cap < (11, 0):'' @ [CR, LF]))
   \<and> can_write (plain_file (''if cap < (11, 0):'' @ [CR, LF]))
   \<and> \<not> already_patched Mxfp4 (data (plain_file (''if cap < (11, 0):'' @ [CR, LF])))
   \<and> applies (hd (rules Mxfp4))
        (universal_newlines (data (plain_file (''if cap < (11, 0):'' @ [CR, LF]))))
   \<and> fst (patch Mxfp4 ''/v''
        (world_of [target Mxfp4 ''/v'' \<mapsto> plain_file (''if cap < (11, 0):'' @ [CR, LF])]))
       = Inr True
   \<and> fs (snd (patch Mxfp4 ''/v''
        (world_of [target Mxfp4 ''/v'' \<mapsto> plain_file (''if cap < (11, 0):'' @ [CR, LF])])))
        (target Mxfp4 ''/v'') = Some (plain_file (''if cap <= (12, 1):'' @ [LF]))
   \<and> fst (patch Mxfp4 ''/v'' (snd (patch Mxfp4 ''/v''
        (world_of [target Mxfp4 ''/v'' \<mapsto> plain_file (''if cap < (11, 0):'' @ [CR, LF])]))))
       = Inr True
   \<and> fs (snd (patch Mxfp4 ''/v'' (snd (patch Mxfp4 ''/v''
        (world_of [target Mxfp4 ''/v'' \<mapsto> plain_file (''if cap < (11, 0):'' @ [CR, LF])])))))
        (target Mxfp4 ''/v'') = Some (plain_file (''if cap <= (12, 1):'' @ [LF]))"
proof -
  let ?f = "plain_file (''if cap < (11, 0):'' @ [CR, LF])"
  let ?w = "world_of [target Mxfp4 ''/v'' \<mapsto> ?f]"
  let ?w1 = "snd (patch Mxfp4 ''/v'' ?w)"
  have rd: "universal_newlines (data ?f) = ''if cap < (11, 0):'' @ [LF]"
    by (simp add: plain_file_def CR_def LF_def)
  have h1: "fs ?w (target Mxfp4 ''/v'') = Some ?f"
    by (simp add: world_of_def)
  have h4: "\<not> already_patched Mxfp4 (data ?f)"
    by (simp add: plain_file_def mxfp4_marker_def CR_def LF_def)
  have h5: "applies (hd (rules Mxfp4)) (universal_newlines (data ?f))"
    unfolding rd by (simp add: re_literal_old_pattern LF_def)
  have rw: "?f\<lparr>data := spec_rewrite (rules Mxfp4) (universal_newlines (data ?f))\<rparr> =
      plain_file (''if cap <= (12, 1):'' @ [LF])"
    unfolding rd
    by (simp add: plain_file_def spec_rewrite_def spec_apply_rule_def re_literal_old_pattern
        replace_def new_pattern_def LF_def)
  note run = second_run_skipped [OF h1 plain_file_access h4 h5 prod.collapse [symmetric]]
  from run have c1: "fst (patch Mxfp4 ''/v'' ?w) = Inr True"
    by (rule conjunct1)
  from run have c2: "fs ?w1 (target Mxfp4 ''/v'') =
      Some (?f\<lparr>data := spec_rewrite (rules Mxfp4) (universal_newlines (data ?f))\<rparr>)"
    by (elim conjE)
  from run have c3: "patch Mxfp4 ''/v'' ?w1 =
      (Inr True, ?w1\<lparr>trace := trace ?w1 @ [Read (target Mxfp4 ''/v'')],
         stdout := stdout ?w1 @ [''SKIP: '' @ target Mxfp4 ''/v'' @ '' already patched'']\<rparr>)"
    by (elim conjE)
  from run have c4: "fs (snd (patch Mxfp4 ''/v'' ?w1)) = fs ?w1"
    by (elim conjE)
  have c5: "fst (patch Mxfp4 ''/v'' ?w1) = Inr True"
    by (simp only: c3 fst_conv)
  have c6: "fs (snd (patch Mxfp4 ''/v'' ?w1)) (target Mxfp4 ''/v'') =
      Some (plain_file (''if cap <= (12, 1):'' @ [LF]))"
    by (simp only: c4 c2 rw)
  have c7: "fs ?w1 (target Mxfp4 ''/v'') = Some (plain_file (''if cap <= (12, 1):'' @ [LF]))"
    by (simp only: c2 rw)
  from h1 plain_file_access h4 h5 c1 c7 c5 c6 show ?thesis
    by (intro conjI)
qed

text \<open>
  The claim as stated holds of every initial text. A file of \<^verbatim>\<open>patch_custom_ops\<close> that
  holds \<^verbatim>\<open>import torch\<close> passes no test of the function: the first run applies no rule
  and prints its two warnings, and so does the second run, which is not skipped and writes
  the file again.
\<close>

lemma plain_text_run:
  "patch Custom_ops ''/v''
     \<lparr>fs = [target Custom_ops ''/v'' \<mapsto> plain_file ''import torch''], trace = t, stdout = out\<rparr> =
   (Inr True,
    \<lparr>fs = [target Custom_ops ''/v'' \<mapsto> plain_file ''import torch''],
     trace = t @ [Read (target Custom_ops ''/v''), Write (target Custom_ops ''/v'') ''import torch''],
     stdout = out @
       [''WARNING: Could not find cutlass_scaled_mm_supports_fp8 pattern in ''
          @ target Custom_ops ''/v'',
        ''WARNING: Could not find cutlass_scaled_mm_supports_block_fp8 pattern in ''
          @ target Custom_ops ''/v'']\<rparr>)"
proof -
  let ?w = "\<lparr>fs = [target Custom_ops ''/v'' \<mapsto> plain_file ''import torch''],
             trace = t, stdout = out\<rparr>"
  have h1: "fs ?w (target Custom_ops ''/v'') = Some (plain_file ''import torch'')"
    by simp
  have h4: "\<not> already_patched Custom_ops (universal_newlines (data (plain_file ''import torch'')))"
    unfolding read_plain_file [OF import_torch_clean] by (simp add: custom_ops_marker_def)
  have rw: "spec_rewrite (rules Custom_ops) ''import torch'' = ''import torch''"
    by (simp add: spec_rewrite_def spec_apply_rule_def custom_ops_old_def custom_ops_old2_def)
  have rp: "report Custom_ops p ''import torch'' =
      [''WARNING: Could not find cutlass_scaled_mm_supports_fp8 pattern in '' @ p,
       ''WARNING: Could not find cutlass_scaled_mm_supports_block_fp8 pattern in '' @ p]" for p
    by (simp add: spec_apply_rule_def custom_ops_old_def custom_ops_old2_def)
  from patch_write [OF h1 plain_file_access(1) h4 plain_file_access(2)]
  show ?thesis
    unfolding read_plain_file [OF import_torch_clean] rw rp
    by (simp add: plain_file_def)
qed

theorem first_run_not_applied:
  "\<not> already_patched Custom_ops ''import torch''
   \<and> hits (rules Custom_ops) ''import torch'' = [False, False]
   \<and> stdout (snd (patch Custom_ops ''/v''
        (world_of [target Custom_ops ''/v'' \<mapsto> plain_file ''import torch''])))
       = [''WARNING: Could not find cutlass_scaled_mm_supports_fp8 pattern in ''
            @ target Custom_ops ''/v'',
          ''WARNING: Could not find cutlass_scaled_mm_supports_block_fp8 pattern in ''
            @ target Custom_ops ''/v'']
   \<and> trace (snd (patch Custom_ops ''/v'' (snd (patch Custom_ops ''/v''
        (world_of [target Custom_ops ''/v'' \<mapsto> plain_file ''import torch''])))))
       = [Read (target Custom_ops ''/v''), Write (target Custom_ops ''/v'') ''import torch'',
          Read (target Custom_ops ''/v''), Write (target Custom_ops ''/v'') ''import torch'']
   \<and> stdout (snd (patch Custom_ops ''/v'' (snd (patch Custom_ops ''/v''
        (world_of [target Custom_ops ''/v'' \<mapsto> plain_file ''import torch''])))))
       = [''WARNING: Could not find cutlass_scaled_mm_supports_fp8 pattern in ''
            @ target Custom_ops ''/v'',
          ''WARNING: Could not find cutlass_scaled_mm_supports_block_fp8 pattern in ''
            @ target Custom_ops ''/v'',
          ''WARNING: Could not find cutlass_scaled_mm_supports_fp8 pattern in ''
            @ target Custom_ops ''/v'',
          ''WARNING: Could not find cutlass_scaled_mm_supports_block_fp8 pattern in ''
            @ target Custom_ops ''/v'']"
proof -
  have a: "\<not> already_patched Custom_ops ''import torch''"
    by (simp add: custom_ops_marker_def)
  have b: "hits (rules Custom_ops) ''import torch'' = [False, False]"
    by (simp add: custom_ops_old_def custom_ops_old2_def spec_apply_rule_def)
  show ?thesis
    unfolding world_of_def
    by (simp only: plain_text_run snd_conv world.simps append_Nil append_Cons a b
        not_False_eq_True simp_thms)
qed

text \<open>
  Beside the amended statement: a \<^verbatim>\<open>w8a8_utils.py\<close> that has the second search text and
  not the first. The first run applies the second rule only; the replacement contains its
  own search text and not the first marker, so the second run is not skipped and applies
  the rule again, inside the text the first run wrote.
\<close>

lemma w8a8_texts_clean: "CR \<notin> set w8a8_old2" "CR \<notin> set w8a8_new2"
  by (simp_all add: w8a8_old2_def w8a8_new2_def CR_def)

lemma w8a8_old2_unmarked: "\<not> contains w8a8_marker1 w8a8_old2"
  by (simp add: w8a8_marker1_def w8a8_old2_def)

lemma w8a8_new2_unmarked: "\<not> contains w8a8_marker1 w8a8_new2"
  by (simp add: w8a8_marker1_def w8a8_new2_def)

lemma w8a8_old2_rewrite: "spec_rewrite (rules W8a8_utils) w8a8_old2 = w8a8_new2"
  by (simp add: spec_rewrite_def spec_apply_rule_def replace_def w8a8_old_def w8a8_old2_def)

lemma w8a8_new2_rewrite:
  "spec_rewrite (rules W8a8_utils) w8a8_new2 =
   ''try:\<newline>    '' @ w8a8_new2 @ ''\<newline>except Exception:\<newline>    CUTLASS_BLOCK_FP8_SUPPORTED = False''"
  by (simp add: spec_rewrite_def spec_apply_rule_def replace_def w8a8_old_def w8a8_old2_def
      w8a8_new2_def)

lemma w8a8_first_run:
  "patch W8a8_utils ''/v'' (world_of [target W8a8_utils ''/v'' \<mapsto> plain_file w8a8_old2]) =
     (Inr True,
      \<lparr>fs = [target W8a8_utils ''/v'' \<mapsto> plain_file w8a8_new2],
       trace = [Read (target W8a8_utils ''/v''), Write (target W8a8_utils ''/v'') w8a8_new2],
       stdout = report W8a8_utils (target W8a8_utils ''/v'') w8a8_old2\<rparr>)"
proof -
  let ?w = "world_of [target W8a8_utils ''/v'' \<mapsto> plain_file w8a8_old2]"
  have h1: "fs ?w (target W8a8_utils ''/v'') = Some (plain_file w8a8_old2)"
    by (simp add: world_of_def)
  have h4: "\<not> already_patched W8a8_utils (universal_newlines (data (plain_file w8a8_old2)))"
    unfolding read_plain_file [OF w8a8_texts_clean(1)] by (simp add: w8a8_old2_unmarked)
  from patch_write [OF h1 plain_file_access(1) h4 plain_file_access(2)]
  show ?thesis
    unfolding read_plain_file [OF w8a8_texts_clean(1)] w8a8_old2_rewrite
    by (simp add: plain_file_def world_of_def del: report.simps)
qed

lemma w8a8_second_run:
  "fs (snd (patch W8a8_utils ''/v''
      \<lparr>fs = [target W8a8_utils ''/v'' \<mapsto> plain_file w8a8_new2], trace = t, stdout = out\<rparr>))
      (target W8a8_utils ''/v'') =
   Some (plain_file (''try:\<newline>    '' @ w8a8_new2
      @ ''\<newline>except Exception:\<newline>    CUTLASS_BLOCK_FP8_SUPPORTED = False''))"
proof -
  let ?w = "\<lparr>fs = [target W8a8_utils ''/v'' \<mapsto> plain_file w8a8_new2], trace = t, stdout = out\<rparr>"
  have h1: "fs ?w (target W8a8_utils ''/v'') = Some (plain_file w8a8_new2)"
    by simp
  have h4: "\<not> already_patched W8a8_utils (universal_newlines (data (plain_file w8a8_new2)))"
    unfolding read_plain_file [OF w8a8_texts_clean(2)] by (simp add: w8a8_new2_unmarked)
  from patch_write [OF h1 plain_file_access(1) h4 plain_file_access(2)]
  show ?thesis
    unfolding read_plain_file [OF w8a8_texts_clean(2)] w8a8_new2_rewrite
    by (simp add: plain_file_def del: report.simps)
qed

lemma partial_patch_applied_twice:
  "fs (snd (patch W8a8_utils ''/v''
        (world_of [target W8a8_utils ''/v'' \<mapsto> plain_file w8a8_old2])))
      (target W8a8_utils ''/v'') = Some (plain_file w8a8_new2)
   \<and> fs (snd (patch W8a8_utils ''/v'' (snd (patch W8a8_utils ''/v''
        (world_of [target W8a8_utils ''/v'' \<mapsto> plain_file w8a8_old2])))))
      (target W8a8_utils ''/v'') =
     Some (plain_file (''try:\<newline>    '' @ w8a8_new2
        @ ''\<newline>except Exception:\<newline>    CUTLASS_BLOCK_FP8_SUPPORTED = False''))
   \<and> ''try:\<newline>    '' @ w8a8_new2
        @ ''\<newline>except Exception:\<newline>    CUTLASS_BLOCK_FP8_SUPPORTED = False'' \<noteq> w8a8_new2"
proof -
  have differ: "''try:\<newline>    '' @ w8a8_new2
        @ ''\<newline>except Exception:\<newline>    CUTLASS_BLOCK_FP8_SUPPORTED = False'' \<noteq> w8a8_new2"
    by simp
  show ?thesis
    by (simp only: w8a8_first_run w8a8_second_run snd_conv world.simps fun_upd_same differ
        not_False_eq_True simp_thms)
qed

subsection \<open>What a unit leaves of the world\<close>

lemma units_all: "set units = UNIV"
proof -
  have "u \<in> set units" for u by (cases u) (simp_all add: units_def)
  then show ?thesis by blast
qed

lemma path_join_inject:
  assumes "path_join d a = path_join d b" "\<not> prefix ''/'' a" "\<not> prefix ''/'' b"
  shows "a = b"
  using assms by (simp add: path_join_def split: if_splits)

lemma target_inject: "target u d = target v d \<Longrightarrow> u = v"
  by (cases u; cases v;
      simp add: custom_ops_path_def mxfp4_path_def w8a8_path_def matcher_path_def;
      drule path_join_inject; simp)

lemma patch_cases:
  obtains (missing) "fs w (target u d) = None"
      "patch u d w = (Inr False, print (''WARNING: '' @ target u d @ '' not found, skipping'') w)"
  | (unreadable) f where "fs w (target u d) = Some f" "\<not> can_read f"
      "patch u d w =
        (Inl (if can_open f then UnicodeDecodeError (target u d) else OSError (target u d)), w)"
  | (skip) f where "fs w (target u d) = Some f" "can_read f"
      "already_patched u (universal_newlines (data f))"
      "patch u d w =
        (Inr True, w\<lparr>trace := trace w @ [Read (target u d)],
                     stdout := stdout w @ [''SKIP: '' @ target u d @ '' already patched'']\<rparr>)"
  | (written) f where "fs w (target u d) = Some f" "can_read f"
      "\<not> already_patched u (universal_newlines (data f))" "can_write f"
      "patch u d w =
        (Inr True,
         w\<lparr>fs := (fs w)(target u d \<mapsto>
                  f\<lparr>data := spec_rewrite (rules u) (universal_newlines (data f))\<rparr>),
           trace := trace w @ [Read (target u d),
                      Write (target u d) (spec_rewrite (rules u) (universal_newlines (data f)))],
           stdout := stdout w @ report u (target u d) (universal_newlines (data f))\<rparr>)"
  | (unwritable) f where "fs w (target u d) = Some f" "can_read f"
      "\<not> already_patched u (universal_newlines (data f))" "\<not> can_write f"
      "patch u d w =
        (Inl (OSError (target u d)),
         w\<lparr>trace := trace w @ [Read (target u d)],
           stdout := stdout w @ report u (target u d) (universal_newlines (data f))\<rparr>)"
proof (cases "fs w (target u d)")
  case None
  then show ?thesis using missing patch_missing by blast
next
  case (Some f)
  show ?thesis
  proof (cases "can_read f")
    case False
    with Some show ?thesis using unreadable patch_unreadable by blast
  next
    case True
    show ?thesis
    proof (cases "already_patched u (universal_newlines (data f))")
      case marked: True
      with Some True show ?thesis using skip patch_skip by blast
    next
      case unmarked: False
      show ?thesis
      proof (cases "can_write f")
        case True
        with Some \<open>can_read f\<close> unmarked show ?thesis using written patch_write by blast
      next
        case False
        with Some \<open>can_read f\<close> unmarked show ?thesis using unwritable patch_unwritable by blast
      qed
    qed
  qed
qed

lemma patch_blocked:
  assumes "blocked u d w"
  shows "fst (patch u d w) = Inl (raised u d w)" "fs (snd (patch u d w)) = fs w"
    "\<exists>evs. trace (snd (patch u d w)) = trace w @ evs \<and> (\<forall>ev \<in> set evs. path_of ev = target u d)"
  using assms
  by (cases rule: patch_cases [of w u d]; simp add: blocked_def raised_def can_read_def)+

lemma patch_not_blocked:
  assumes "\<not> blocked u d w"
  shows "fst (patch u d w) = Inr (fs w (target u d) \<noteq> None)"
  using assms by (cases rule: patch_cases [of w u d]) (simp_all add: blocked_def)

lemma patch_elsewhere:
  assumes "q \<noteq> target u d"
  shows "fs (snd (patch u d w)) q = fs w q"
  using assms by (cases rule: patch_cases [of w u d]) (simp_all add: print_def)

lemma patch_trace:
  "\<exists>evs. trace (snd (patch u d w)) = trace w @ evs \<and> (\<forall>ev \<in> set evs. path_of ev = target u d)"
  by (cases rule: patch_cases [of w u d]) (simp_all add: print_def)

lemma blocked_cong:
  "fs w' (target u d) = fs w (target u d) \<Longrightarrow> blocked u d w' = blocked u d w"
  by (simp add: blocked_def)

lemma raised_cong:
  "fs w' (target u d) = fs w (target u d) \<Longrightarrow> raised u d w' = raised u d w"
  by (simp add: raised_def)

text \<open>
  What a unit returns and what it leaves in its own target file depend on nothing but
  that file.
\<close>

lemma patch_same_target:
  assumes "fs w' (target u d) = fs w (target u d)"
  shows "fs (snd (patch u d w')) (target u d) = fs (snd (patch u d w)) (target u d)"
proof (cases rule: patch_cases [of w u d])
  case missing
  with assms have "fs w' (target u d) = None" by simp
  from patch_missing [OF this] missing assms show ?thesis by (simp add: print_def)
next
  case (unreadable f)
  with assms have "fs w' (target u d) = Some f" by simp
  from patch_unreadable [OF this unreadable(2)] unreadable assms show ?thesis by simp
next
  case (skip f)
  with assms have "fs w' (target u d) = Some f" by simp
  from patch_skip [OF this skip(2,3)] skip assms show ?thesis by simp
next
  case (written f)
  with assms have "fs w' (target u d) = Some f" by simp
  from patch_write [OF this written(2,3,4)] written show ?thesis by simp
next
  case (unwritable f)
  with assms have "fs w' (target u d) = Some f" by simp
  from patch_unwritable [OF this unwritable(2,3,4)] unwritable assms show ?thesis by simp
qed

subsection \<open>The lines a unit prints\<close>

lemma fp8_report_lines:
  "l \<in> set (fp8_report p pats s) \<Longrightarrow> prefix ''PATCHED: '' l"
  by (induction pats arbitrary: s) (auto split: if_splits)

lemma report_lines:
  assumes "l \<in> set (report u p s)"
  shows "prefix ''PATCHED: '' l \<or> prefix ''WARNING: '' l"
proof (cases u)
  case Matcher_utils
  with assms show ?thesis
    by (auto simp: Let_def split: if_splits dest: fp8_report_lines)
qed (use assms in \<open>auto split: if_splits\<close>)

lemma patch_lines:
  "\<exists>out. stdout (snd (patch u d w)) = stdout w @ out \<and> ''Summary:'' \<notin> set out"
proof (cases rule: patch_cases [of w u d])
  case missing
  then show ?thesis by (simp add: print_def)
next
  case (unreadable f)
  then show ?thesis by simp
next
  case (skip f)
  then show ?thesis by simp
next
  case (written f)
  have "''Summary:'' \<notin> set (report u (target u d) (universal_newlines (data f)))"
    using report_lines [of "''Summary:''" u "target u d"] by auto
  with written show ?thesis by simp
next
  case (unwritable f)
  have "''Summary:'' \<notin> set (report u (target u d) (universal_newlines (data f)))"
    using report_lines [of "''Summary:''" u "target u d"] by auto
  with unwritable show ?thesis by simp
qed

subsection \<open>The sequence of calls in \<^verbatim>\<open>main\<close>\<close>

lemma finish_status:
  "fst (finish results w) = Inr (if \<forall>r \<in> set results. snd r then 0 else 1)"
  by (auto simp: finish_def Let_def filter_empty_conv)

lemma banner_same: "fs (banner d w) = fs w" "trace (banner d w) = trace w"
  by (simp_all add: banner_def print_def)

lemma banner_lines:
  "\<exists>out. stdout (banner d w) = stdout w @ out \<and> ''Summary:'' \<notin> set out"
proof -
  have "length ''Summary:'' \<noteq> length (replicate 60 CHR ''='')"
    by simp
  then have "''Summary:'' \<noteq> replicate 60 CHR ''=''"
    by metis
  then show ?thesis
    by (simp add: banner_def print_def)
qed

lemma run_clear:
  assumes "distinct us" "\<forall>u \<in> set us. \<not> blocked u d w"
  shows "fst (run us d w) = Inr (map (\<lambda>u. fs w (target u d) \<noteq> None) us)"
  using assms
proof (induction us arbitrary: w)
  case Nil
  then show ?case by simp
next
  case (Cons u us)
  obtain r w' where p: "patch u d w = (r, w')" by (cases "patch u d w")
  from Cons.prems have "\<not> blocked u d w" by simp
  from patch_not_blocked [OF this] p have r: "r = Inr (fs w (target u d) \<noteq> None)" by simp
  have same: "fs w' (target v d) = fs w (target v d)" if "v \<in> set us" for v
  proof -
    from that Cons.prems(1) have "v \<noteq> u" by auto
    then have "target v d \<noteq> target u d" using target_inject by blast
    from patch_elsewhere [OF this, of w] p show ?thesis by simp
  qed
  have "\<forall>v \<in> set us. \<not> blocked v d w'"
  proof
    fix v assume v: "v \<in> set us"
    from blocked_cong [OF same [OF v]] Cons.prems(2) v show "\<not> blocked v d w'" by simp
  qed
  with Cons.IH [of w'] Cons.prems(1)
  have "fst (run us d w') = Inr (map (\<lambda>u. fs w' (target u d) \<noteq> None) us)" by simp
  also have "map (\<lambda>u. fs w' (target u d) \<noteq> None) us = map (\<lambda>u. fs w (target u d) \<noteq> None) us"
    using same by simp
  finally obtain w'' where
    rest: "run us d w' = (Inr (map (\<lambda>u. fs w (target u d) \<noteq> None) us), w'')"
    by (cases "run us d w'") simp
  show ?case
    by (simp add: p r rest)
qed

lemma main_run:
  "main d w =
     (case run units d (banner d w) of
        (Inl e, w') \<Rightarrow> (Inl e, w')
      | (Inr rs, w') \<Rightarrow> finish (zip names rs) w')"
proof -
  obtain a w1 where p1: "patch_custom_ops d (banner d w) = (a, w1)"
    by (cases "patch_custom_ops d (banner d w)")
  obtain b w2 where p2: "patch_mxfp4 d w1 = (b, w2)" by (cases "patch_mxfp4 d w1")
  obtain c w3 where p3: "patch_w8a8_utils d w2 = (c, w3)" by (cases "patch_w8a8_utils d w2")
  obtain e w4 where p4: "patch_matcher_utils d w3 = (e, w4)"
    by (cases "patch_matcher_utils d w3")
  have m: "main d w =
     (case patch_custom_ops d (banner d w) of
        (Inl e, w) \<Rightarrow> (Inl e, w)
      | (Inr r1, w) \<Rightarrow>
     (case patch_mxfp4 d w of
        (Inl e, w) \<Rightarrow> (Inl e, w)
      | (Inr r2, w) \<Rightarrow>
     (case patch_w8a8_utils d w of
        (Inl e, w) \<Rightarrow> (Inl e, w)
      | (Inr r3, w) \<Rightarrow>
     (case patch_matcher_utils d w of
        (Inl e, w) \<Rightarrow> (Inl e, w)
      | (Inr r4, w) \<Rightarrow>
          finish [(''_custom_ops.py'', r1), (''mxfp4.py'', r2),
                  (''w8a8_utils.py'', r3), (''matcher_utils.py'', r4)] w))))"
    unfolding main_def banner_def finish_def Let_def ..
  show ?thesis
    unfolding m units_def
    by (cases a; cases b; cases c; cases e) (simp_all add: p1 p2 p3 p4 names_def)
qed

lemma run_elsewhere:
  assumes "\<forall>v \<in> set us. q \<noteq> target v d"
  shows "fs (snd (run us d w)) q = fs w q"
  using assms
proof (induction us arbitrary: w)
  case Nil
  then show ?case by simp
next
  case (Cons x us)
  obtain r w' where p: "patch x d w = (r, w')" by (cases "patch x d w")
  from Cons.prems have "q \<noteq> target x d" by simp
  from patch_elsewhere [OF this, of w] p have same: "fs w' q = fs w q" by simp
  from Cons.prems Cons.IH [of w'] have ih: "fs (snd (run us d w')) q = fs w' q" by simp
  show ?case
    using same ih by (cases r; cases "run us d w'") (auto simp: p split: sum.splits)
qed

lemma run_trace:
  "\<exists>evs. trace (snd (run us d w)) = trace w @ evs
      \<and> (\<forall>ev \<in> set evs. \<exists>v \<in> set us. path_of ev = target v d)"
proof (induction us arbitrary: w)
  case Nil
  then show ?case by simp
next
  case (Cons x us)
  obtain r w' where p: "patch x d w = (r, w')" by (cases "patch x d w")
  from patch_trace [of x d w] p
  obtain evs1 where evs1: "trace w' = trace w @ evs1" "\<forall>ev \<in> set evs1. path_of ev = target x d"
    by auto
  from Cons.IH [of w']
  obtain evs2 where evs2: "trace (snd (run us d w')) = trace w' @ evs2"
    "\<forall>ev \<in> set evs2. \<exists>v \<in> set us. path_of ev = target v d"
    by auto
  show ?case
  proof (cases r)
    case (Inl e)
    with evs1 show ?thesis by (simp add: p)
  next
    case (Inr b)
    have "trace (snd (run (x # us) d w)) = trace w @ (evs1 @ evs2)"
      using evs1(1) evs2(1) by (cases "run us d w'") (auto simp: p Inr split: sum.splits)
    moreover have "\<forall>ev \<in> set (evs1 @ evs2). \<exists>v \<in> set (x # us). path_of ev = target v d"
      using evs1(2) evs2(2) by auto
    ultimately show ?thesis by blast
  qed
qed

lemma run_lines:
  "\<exists>out. stdout (snd (run us d w)) = stdout w @ out \<and> ''Summary:'' \<notin> set out"
proof (induction us arbitrary: w)
  case Nil
  then show ?case by simp
next
  case (Cons x us)
  obtain r w' where p: "patch x d w = (r, w')" by (cases "patch x d w")
  from patch_lines [of x d w] p
  obtain out1 where out1: "stdout w' = stdout w @ out1" "''Summary:'' \<notin> set out1"
    by auto
  from Cons.IH [of w']
  obtain out2 where out2: "stdout (snd (run us d w')) = stdout w' @ out2"
    "''Summary:'' \<notin> set out2"
    by auto
  show ?case
  proof (cases r)
    case (Inl e)
    with out1 show ?thesis by (simp add: p)
  next
    case (Inr b)
    have "stdout (snd (run (x # us) d w)) = stdout w @ (out1 @ out2)"
      using out1(1) out2(1) by (cases "run us d w'") (auto simp: p Inr split: sum.splits)
    moreover have "''Summary:'' \<notin> set (out1 @ out2)"
      using out1(2) out2(2) by simp
    ultimately show ?thesis by blast
  qed
qed

text \<open>
  After a sequence of distinct units none of which raises, the target file of each is as
  the unit alone would leave it.
\<close>

lemma run_own_target:
  assumes "distinct us" "\<forall>u \<in> set us. \<not> blocked u d w" "v \<in> set us"
  shows "fs (snd (run us d w)) (target v d) = fs (snd (patch v d w)) (target v d)"
  using assms
proof (induction us arbitrary: w)
  case Nil
  then show ?case by simp
next
  case (Cons x us)
  obtain r w' where p: "patch x d w = (r, w')" by (cases "patch x d w")
  from Cons.prems have "\<not> blocked x d w" by simp
  from patch_not_blocked [OF this] p have r: "r = Inr (fs w (target x d) \<noteq> None)" by simp
  have same: "fs w' (target y d) = fs w (target y d)" if "y \<in> set us" for y
  proof -
    from that Cons.prems(1) have "y \<noteq> x" by auto
    then have "target y d \<noteq> target x d" using target_inject by blast
    from patch_elsewhere [OF this, of w] p show ?thesis by simp
  qed
  have clear: "\<forall>y \<in> set us. \<not> blocked y d w'"
  proof
    fix y assume y: "y \<in> set us"
    from blocked_cong [OF same [OF y]] Cons.prems(2) y show "\<not> blocked y d w'" by simp
  qed
  from Cons.prems(1) have dus: "distinct us" by simp
  from run_clear [OF dus clear]
  obtain rs w'' where rest: "run us d w' = (Inr rs, w'')"
    by (cases "run us d w'") simp
  have whole: "snd (run (x # us) d w) = w''"
    by (simp add: p r rest)
  show ?case
  proof (cases "v = x")
    case True
    have "\<forall>y \<in> set us. target x d \<noteq> target y d"
      using Cons.prems(1) target_inject by auto
    from run_elsewhere [OF this, of w'] rest have "fs w'' (target x d) = fs w' (target x d)"
      by simp
    then have "fs w'' (target x d) = fs (snd (patch x d w)) (target x d)"
      by (simp add: p)
    then show ?thesis
      unfolding True whole .
  next
    case False
    with Cons.prems(3) have v: "v \<in> set us" by simp
    from Cons.IH [OF dus clear v] rest
    have "fs w'' (target v d) = fs (snd (patch v d w')) (target v d)" by simp
    also have "\<dots> = fs (snd (patch v d w)) (target v d)"
      by (rule patch_same_target [OF same [OF v]])
    finally show ?thesis
      unfolding whole .
  qed
qed

text \<open>The first unit that raises ends the sequence.\<close>

lemma run_stops:
  assumes "distinct (us @ u # vs)" "\<forall>v \<in> set us. \<not> blocked v d w" "blocked u d w"
  shows "run (us @ u # vs) d w = (Inl (raised u d w), snd (patch u d (snd (run us d w))))
       \<and> blocked u d (snd (run us d w))"
  using assms
proof (induction us arbitrary: w)
  case Nil
  from patch_blocked(1) [OF Nil.prems(3)]
  have "run (u # vs) d w = (Inl (raised u d w), snd (patch u d w))"
    by (cases "patch u d w") simp
  with Nil.prems(3) show ?case by simp
next
  case (Cons x us)
  obtain r w' where p: "patch x d w = (r, w')" by (cases "patch x d w")
  from Cons.prems have "\<not> blocked x d w" by simp
  from patch_not_blocked [OF this] p have r: "r = Inr (fs w (target x d) \<noteq> None)" by simp
  have same: "fs w' (target y d) = fs w (target y d)" if "y \<noteq> x" for y
  proof -
    from that have "target y d \<noteq> target x d" using target_inject by blast
    from patch_elsewhere [OF this, of w] p show ?thesis by simp
  qed
  have d: "distinct (us @ u # vs)" and nx: "x \<notin> set us" "x \<noteq> u"
    using Cons.prems(1) by auto
  have b1: "\<forall>y \<in> set us. \<not> blocked y d w'"
  proof
    fix y assume y: "y \<in> set us"
    with nx have "y \<noteq> x" by auto
    from blocked_cong [OF same [OF this]] Cons.prems(2) y show "\<not> blocked y d w'" by simp
  qed
  have b2: "blocked u d w'"
    using blocked_cong [OF same [of u]] nx(2) Cons.prems(3) by simp
  have e: "raised u d w' = raised u d w"
    using raised_cong [OF same [of u]] nx(2) by simp
  from Cons.prems(1) have dus: "distinct us" by simp
  from run_clear [OF dus b1]
  obtain rs w'' where first: "run us d w' = (Inr rs, w'')"
    by (cases "run us d w'") simp
  have front: "snd (run (x # us) d w) = snd (run us d w')"
    by (simp add: p r first)
  from Cons.IH [OF d b1 b2]
  have ih: "run (us @ u # vs) d w' = (Inl (raised u d w), snd (patch u d (snd (run us d w'))))"
    "blocked u d (snd (run us d w'))"
    by (simp_all add: e)
  have "run ((x # us) @ u # vs) d w =
      (Inl (raised u d w), snd (patch u d (snd (run us d w'))))"
    by (simp add: p r ih(1))
  with ih(2) show ?case
    by (simp only: front simp_thms)
qed

lemma units_distinct: "distinct units"
  by (simp add: units_def)

lemma main_clear:
  assumes "\<forall>u. \<not> blocked u d w"
  shows "fst (main d w) = Inr (if \<forall>u. fs w (target u d) \<noteq> None then 0 else 1)"
proof -
  have "\<forall>u \<in> set units. \<not> blocked u d (banner d w)"
    using assms blocked_cong [of "banner d w" _ d w] by (simp add: banner_same)
  from run_clear [OF units_distinct this]
  obtain w' where r: "run units d (banner d w) =
      (Inr (map (\<lambda>u. fs w (target u d) \<noteq> None) units), w')"
    by (cases "run units d (banner d w)") (simp add: banner_same)
  have "(\<forall>r \<in> set (zip names (map (\<lambda>u. fs w (target u d) \<noteq> None) units)). snd r)
      = (\<forall>u. fs w (target u d) \<noteq> None)"
    (is "?l = ?r")
  proof
    assume ?l
    then have "fs w (target u d) \<noteq> None" for u
      by (cases u) (simp_all add: names_def units_def)
    then show ?r by blast
  next
    assume ?r
    then show ?l by (simp add: names_def units_def)
  qed
  then show ?thesis
    by (simp add: main_run r finish_status del: set_zip)
qed

lemma main_blocked:
  assumes "units = us @ u # vs" "\<forall>v \<in> set us. \<not> blocked v d w" "blocked u d w"
  shows "main d w = (Inl (raised u d w), snd (patch u d (snd (run us d (banner d w)))))"
    "\<forall>v \<in> set us. fs (snd (main d w)) (target v d) = fs (snd (patch v d w)) (target v d)"
    "fs (snd (main d w)) (target u d) = fs w (target u d)"
    "\<forall>v \<in> set vs. fs (snd (main d w)) (target v d) = fs w (target v d)"
    "\<exists>evs. trace (snd (main d w)) = trace w @ evs
        \<and> (\<forall>ev \<in> set evs. \<forall>v \<in> set vs. path_of ev \<noteq> target v d)"
    "\<exists>out. stdout (snd (main d w)) = stdout w @ out \<and> ''Summary:'' \<notin> set out"
proof -
  let ?w0 = "banner d w"
  let ?w1 = "snd (run us d ?w0)"
  let ?w2 = "snd (patch u d ?w1)"
  have d: "distinct (us @ u # vs)"
    using units_distinct assms(1) by simp
  then have dus: "distinct us" by simp
  have b1: "\<forall>v \<in> set us. \<not> blocked v d ?w0"
    using assms(2) blocked_cong [of ?w0 _ d w] by (simp add: banner_same)
  have b2: "blocked u d ?w0"
    using assms(3) blocked_cong [of ?w0 u d w] by (simp add: banner_same)
  have e: "raised u d ?w0 = raised u d w"
    by (rule raised_cong) (simp add: banner_same)
  from run_stops [OF d b1 b2]
  have r: "run (us @ u # vs) d ?w0 = (Inl (raised u d w), ?w2)" and b3: "blocked u d ?w1"
    by (simp_all add: e)
  show m: "main d w = (Inl (raised u d w), ?w2)"
    by (simp add: main_run assms(1) r)
  then have s: "snd (main d w) = ?w2" by simp
  have same: "fs ?w2 = fs ?w1"
    by (rule patch_blocked(2) [OF b3])
  have other: "target x d \<noteq> target v d" if "x \<notin> set us" "v \<in> set us" for x v
    using that target_inject by blast
  have rest: "fs ?w1 (target x d) = fs w (target x d)" if "x \<notin> set us" for x
  proof -
    from that other have "\<forall>v \<in> set us. target x d \<noteq> target v d" by blast
    from run_elsewhere [OF this, of ?w0] show ?thesis by (simp add: banner_same)
  qed
  show "\<forall>v \<in> set us. fs (snd (main d w)) (target v d) = fs (snd (patch v d w)) (target v d)"
  proof
    fix v assume v: "v \<in> set us"
    have "fs ?w1 (target v d) = fs (snd (patch v d ?w0)) (target v d)"
      by (rule run_own_target [OF dus b1 v])
    also have "\<dots> = fs (snd (patch v d w)) (target v d)"
      by (rule patch_same_target) (simp add: banner_same)
    finally show "fs (snd (main d w)) (target v d) = fs (snd (patch v d w)) (target v d)"
      by (simp only: s same)
  qed
  from d have "u \<notin> set us" by simp
  from rest [OF this] show "fs (snd (main d w)) (target u d) = fs w (target u d)"
    by (simp only: s same)
  show "\<forall>v \<in> set vs. fs (snd (main d w)) (target v d) = fs w (target v d)"
  proof
    fix v assume "v \<in> set vs"
    with d have "v \<notin> set us" by auto
    from rest [OF this] show "fs (snd (main d w)) (target v d) = fs w (target v d)"
      by (simp only: s same)
  qed
  from run_trace [of us d ?w0]
  obtain evs1 where evs1: "trace ?w1 = trace w @ evs1"
    "\<forall>ev \<in> set evs1. \<exists>v \<in> set us. path_of ev = target v d"
    by (auto simp: banner_same)
  from patch_trace [of u d ?w1]
  obtain evs2 where evs2: "trace ?w2 = trace ?w1 @ evs2"
    "\<forall>ev \<in> set evs2. path_of ev = target u d"
    by auto
  have t: "trace (snd (main d w)) = trace w @ (evs1 @ evs2)"
    using evs1(1) evs2(1) by (simp only: s append_assoc)
  have "\<forall>ev \<in> set (evs1 @ evs2). \<forall>v \<in> set vs. path_of ev \<noteq> target v d"
  proof (intro ballI)
    fix ev v assume ev: "ev \<in> set (evs1 @ evs2)" and v: "v \<in> set vs"
    show "path_of ev \<noteq> target v d"
    proof (cases "ev \<in> set evs1")
      case True
      with evs1(2) obtain x where x: "x \<in> set us" "path_of ev = target x d" by blast
      from x(1) v d have "x \<noteq> v" by auto
      with x(2) show ?thesis using target_inject by metis
    next
      case False
      with ev have "ev \<in> set evs2" by simp
      with evs2(2) have "path_of ev = target u d" by simp
      moreover from v d have "u \<noteq> v" by auto
      ultimately show ?thesis using target_inject by metis
    qed
  qed
  with t show "\<exists>evs. trace (snd (main d w)) = trace w @ evs
        \<and> (\<forall>ev \<in> set evs. \<forall>v \<in> set vs. path_of ev \<noteq> target v d)"
    by blast
  from banner_lines [of d w]
  obtain out0 where out0: "stdout ?w0 = stdout w @ out0" "''Summary:'' \<notin> set out0"
    by blast
  from run_lines [of us d ?w0]
  obtain out1 where out1: "stdout ?w1 = stdout ?w0 @ out1" "''Summary:'' \<notin> set out1"
    by blast
  from patch_lines [of u d ?w1]
  obtain out2 where out2: "stdout ?w2 = stdout ?w1 @ out2" "''Summary:'' \<notin> set out2"
    by blast
  have "stdout (snd (main d w)) = stdout w @ (out0 @ out1 @ out2)"
    using out0(1) out1(1) out2(1) by (simp only: s append_assoc)
  moreover have "''Summary:'' \<notin> set (out0 @ out1 @ out2)"
    using out0(2) out1(2) out2(2) by simp
  ultimately show "\<exists>out. stdout (snd (main d w)) = stdout w @ out \<and> ''Summary:'' \<notin> set out"
    by blast
qed

lemma first_blocked:
  assumes "blocked u d w"
  obtains us x vs where "units = us @ x # vs" "blocked x d w" "\<forall>v \<in> set us. \<not> blocked v d w"
proof -
  have "\<exists>x \<in> set units. blocked x d w"
    using assms units_all by auto
  from split_list_first_prop [OF this] that show thesis by blast
qed

lemma main_fails_iff: "(\<exists>e. fst (main d w) = Inl e) \<longleftrightarrow> (\<exists>u. blocked u d w)"
proof
  assume "\<exists>e. fst (main d w) = Inl e"
  then obtain e where e: "fst (main d w) = Inl e" ..
  show "\<exists>u. blocked u d w"
  proof (rule ccontr)
    assume "\<not> (\<exists>u. blocked u d w)"
    then have "\<forall>u. \<not> blocked u d w" by simp
    from main_clear [OF this] e show False by simp
  qed
next
  assume "\<exists>u. blocked u d w"
  then obtain u where "blocked u d w" ..
  then obtain us x vs where x: "units = us @ x # vs" "blocked x d w"
      "\<forall>v \<in> set us. \<not> blocked v d w"
    by (rule first_blocked)
  from main_blocked(1) [OF x(1) x(3) x(2)] show "\<exists>e. fst (main d w) = Inl e" by simp
qed

lemma readable_writable_clear:
  assumes "\<forall>u f. fs w (target u d) = Some f \<longrightarrow> can_read f \<and> can_write f"
  shows "\<not> blocked u d w"
  using assms by (auto simp: blocked_def split: option.splits)

lemma target_eq_iff: "target u d = target v d \<longleftrightarrow> u = v"
  using target_inject by blast

lemma sparse_tree_fs:
  "fs (sparse_tree d) (target u d) =
     (if u = Custom_ops then None else Some (plain_file ''import torch''))"
  by (cases u) (simp_all add: sparse_tree_def world_of_def target_eq_iff del: target.simps)

lemma drifted_tree_fs:
  "fs (drifted_tree d) (target u d) =
     Some (plain_file (if u = Custom_ops then custom_ops_old2 else ''import torch''))"
  by (cases u) (simp_all add: drifted_tree_def world_of_def target_eq_iff del: target.simps)

lemma locked_tree_fs:
  "fs (locked_tree d) (target u d) =
     (if u = Custom_ops then Some (locked_file ''import torch'')
      else if u = Mxfp4 then Some (plain_file ''if cap < (11, 0):'') else None)"
  by (cases u) (simp_all add: locked_tree_def world_of_def target_eq_iff del: target.simps)

lemma stalled_tree_fs:
  "fs (stalled_tree d) (target u d) =
     Some (if u = W8a8_utils then locked_file ''import torch''
           else if u = Mxfp4 then plain_file ''if cap < (11, 0):''
           else plain_file ''import torch'')"
  by (cases u) (simp_all add: stalled_tree_def world_of_def target_eq_iff del: target.simps)

lemma sparse_tree_clear: "\<not> blocked u d (sparse_tree d)"
  by (simp add: blocked_def sparse_tree_fs plain_file_access del: target.simps)

lemma drifted_tree_clear: "\<not> blocked u d (drifted_tree d)"
  by (simp add: blocked_def drifted_tree_fs plain_file_access del: target.simps)

lemma locked_file_access: "\<not> can_read (locked_file s)"
  by (simp add: locked_file_def can_read_def)

lemma locked_tree_blocked: "blocked Custom_ops d (locked_tree d)"
  by (simp add: blocked_def locked_tree_fs locked_file_access del: target.simps)

subsection \<open>The result of a patch function and of \<^verbatim>\<open>main\<close>\<close>

text \<open>
  C9. Suppose every target file that exists can be read and written. Then each of the four
  patch functions returns \<open>False\<close> when its target file does not exist and \<open>True\<close> when it
  does, whatever the file holds; and \<^verbatim>\<open>main\<close> returns 0 when all four target files exist
  and 1 otherwise.
\<close>

theorem false_iff_missing:
  assumes "\<forall>u f. fs w (target u d) = Some f \<longrightarrow> can_read f \<and> can_write f"
  shows "(\<forall>u. fst (patch u d w) = Inr (fs w (target u d) \<noteq> None))
       \<and> fst (main d w) = Inr (if \<forall>u. fs w (target u d) \<noteq> None then 0 else 1)"
proof -
  have clear: "\<forall>u. \<not> blocked u d w"
    using readable_writable_clear [OF assms] by blast
  then have "\<forall>u. fst (patch u d w) = Inr (fs w (target u d) \<noteq> None)"
    using patch_not_blocked by blast
  with main_clear [OF clear] show ?thesis by blast
qed

theorem false_iff_missing_witness:
  "fst (patch Custom_ops ''/build/vllm'' (sparse_tree ''/build/vllm'')) = Inr False
   \<and> fst (patch Mxfp4 ''/build/vllm'' (sparse_tree ''/build/vllm'')) = Inr True
   \<and> fst (patch W8a8_utils ''/build/vllm'' (sparse_tree ''/build/vllm'')) = Inr True
   \<and> fst (patch Matcher_utils ''/build/vllm'' (sparse_tree ''/build/vllm'')) = Inr True
   \<and> fst (main ''/build/vllm'' (sparse_tree ''/build/vllm'')) = Inr 1"
proof -
  have ok: "\<forall>u f. fs (sparse_tree ''/build/vllm'') (target u ''/build/vllm'') = Some f
      \<longrightarrow> can_read f \<and> can_write f"
    by (simp add: sparse_tree_fs plain_file_access del: target.simps)
  note inst = false_iff_missing [OF ok]
  have absent: "\<not> (\<forall>u. fs (sparse_tree ''/build/vllm'') (target u ''/build/vllm'') \<noteq> None)"
    using sparse_tree_fs [of "''/build/vllm''" Custom_ops] by (metis)
  from inst have each: "fst (patch u ''/build/vllm'' (sparse_tree ''/build/vllm'')) =
      Inr (fs (sparse_tree ''/build/vllm'') (target u ''/build/vllm'') \<noteq> None)" for u
    by blast
  from inst absent have m: "fst (main ''/build/vllm'' (sparse_tree ''/build/vllm'')) = Inr 1"
    by (simp only: if_False simp_thms)
  show ?thesis
    by (simp only: each m sparse_tree_fs) simp
qed

text \<open>
  C1, as the code has it. Whenever \<^verbatim>\<open>main\<close> returns a status, that is, no patch function
  raised, the status is 0 when all four target files exist and 1 when one or more of them
  is absent. So a file in which some or none of the rules matched does not make the run
  fail, and a file that is absent does.
\<close>

theorem status_counts_missing_files:
  assumes "fst (main d w) = Inr status"
  shows "status = (if \<forall>u. fs w (target u d) \<noteq> None then 0 else 1)"
proof -
  have "\<forall>u. \<not> blocked u d w"
    using main_fails_iff [of d w] assms by auto
  from main_clear [OF this] assms show ?thesis by simp
qed

theorem status_counts_missing_files_witness:
  "hits (rules Custom_ops) custom_ops_old2 = [False, True]
   \<and> hits (rules Mxfp4) ''import torch'' = [False]
   \<and> fst (main ''/build/vllm'' (drifted_tree ''/build/vllm'')) = Inr 0
   \<and> (0::int) =
      (if \<forall>u. fs (drifted_tree ''/build/vllm'') (target u ''/build/vllm'') \<noteq> None then 0 else 1)"
proof -
  have partial: "hits (rules Custom_ops) custom_ops_old2 = [False, True]"
    by (rule custom_ops_old2_hits)
  have noop: "hits (rules Mxfp4) ''import torch'' = [False]"
    by (simp add: re_literal_old_pattern)
  have "\<forall>u. \<not> blocked u ''/build/vllm'' (drifted_tree ''/build/vllm'')"
    using drifted_tree_clear by blast
  from main_clear [OF this]
  have m: "fst (main ''/build/vllm'' (drifted_tree ''/build/vllm'')) = Inr 0"
    by (simp add: drifted_tree_fs del: target.simps)
  from partial noop m status_counts_missing_files [OF m] show ?thesis
    by (intro conjI)
qed

text \<open>
  The claim as stated keeps the run a success when a unit was skipped for a missing file.
  In \<open>sparse_tree\<close> nothing raises: the first function returns \<open>False\<close> for its absent
  file, the other three return \<open>True\<close>, and \<^verbatim>\<open>main\<close> returns 1.
\<close>

theorem missing_file_fails_run:
  "fs (sparse_tree ''/build/vllm'') (target Custom_ops ''/build/vllm'') = None
   \<and> fst (patch Custom_ops ''/build/vllm'' (sparse_tree ''/build/vllm'')) = Inr False
   \<and> fst (main ''/build/vllm'' (sparse_tree ''/build/vllm'')) = Inr 1
   \<and> fst (exit_status ''/build/vllm'' (sparse_tree ''/build/vllm'')) = 1"
proof -
  have absent: "fs (sparse_tree ''/build/vllm'') (target Custom_ops ''/build/vllm'') = None"
    by (simp add: sparse_tree_fs del: target.simps)
  have "\<not> blocked u ''/build/vllm'' (sparse_tree ''/build/vllm'')" for u
    by (rule sparse_tree_clear)
  then have clear: "\<forall>u. \<not> blocked u ''/build/vllm'' (sparse_tree ''/build/vllm'')" ..
  have one: "fst (patch Custom_ops ''/build/vllm'' (sparse_tree ''/build/vllm'')) = Inr False"
    using patch_missing [OF absent] by simp
  have "\<not> (\<forall>u. fs (sparse_tree ''/build/vllm'') (target u ''/build/vllm'') \<noteq> None)"
    using absent by metis
  with main_clear [OF clear]
  have m: "fst (main ''/build/vllm'' (sparse_tree ''/build/vllm'')) = Inr 1"
    by (simp only: if_False simp_thms)
  then obtain w' where "main ''/build/vllm'' (sparse_tree ''/build/vllm'') = (Inr 1, w')"
    by (cases "main ''/build/vllm'' (sparse_tree ''/build/vllm'')") simp
  then have "fst (exit_status ''/build/vllm'' (sparse_tree ''/build/vllm'')) = 1"
    by (simp add: exit_status_def)
  with absent one m show ?thesis by (intro conjI)
qed

subsection \<open>An exception in a patch function\<close>

text \<open>
  C2, as the code has it. No function of the script catches an exception. Let \<open>u\<close> be the
  first unit in the order of \<^verbatim>\<open>main\<close> that is blocked: its target file exists and cannot be
  opened or decoded, or is to be rewritten and cannot be opened for writing. Then the
  exception leaves \<^verbatim>\<open>main\<close>, which so returns no status, and the process ends with
  status 1. The world the run leaves is the one left by the banner, the calls of the units
  before \<open>u\<close> and the call of \<open>u\<close>, so that: no line \<^verbatim>\<open>Summary:\<close> is printed; the target
  file of each unit before \<open>u\<close> is as that unit leaves it; the target file of \<open>u\<close> is what
  it was; and the units after \<open>u\<close> are never called: their target files are what they
  were before the run, and no read or write of them is recorded.
\<close>

theorem open_error_ends_run:
  assumes "units = us @ u # vs" "\<forall>v \<in> set us. \<not> blocked v d w" "blocked u d w"
  shows "fst (main d w) = Inl (raised u d w)
       \<and> fst (exit_status d w) = 1
       \<and> snd (main d w) = snd (patch u d (snd (run us d (banner d w))))
       \<and> ''Summary:'' \<notin> set (drop (length (stdout w)) (stdout (snd (main d w))))
       \<and> (\<forall>v \<in> set us. fs (snd (main d w)) (target v d) = fs (snd (patch v d w)) (target v d))
       \<and> fs (snd (main d w)) (target u d) = fs w (target u d)
       \<and> (\<forall>v \<in> set vs. fs (snd (main d w)) (target v d) = fs w (target v d))
       \<and> (\<forall>ev \<in> set (drop (length (trace w)) (trace (snd (main d w)))).
            \<forall>v \<in> set vs. path_of ev \<noteq> target v d)"
proof -
  note m = main_blocked [OF assms]
  from m(1) have a: "fst (main d w) = Inl (raised u d w)"
    by simp
  have b: "fst (exit_status d w) = 1"
    by (simp add: exit_status_def m(1))
  from m(1) have c: "snd (main d w) = snd (patch u d (snd (run us d (banner d w))))"
    by simp
  from m(6) obtain out where out: "stdout (snd (main d w)) = stdout w @ out"
    "''Summary:'' \<notin> set out"
    by blast
  have s: "''Summary:'' \<notin> set (drop (length (stdout w)) (stdout (snd (main d w))))"
    using out by simp
  from m(5) obtain evs where evs: "trace (snd (main d w)) = trace w @ evs"
    "\<forall>ev \<in> set evs. \<forall>v \<in> set vs. path_of ev \<noteq> target v d"
    by blast
  have t: "\<forall>ev \<in> set (drop (length (trace w)) (trace (snd (main d w)))).
            \<forall>v \<in> set vs. path_of ev \<noteq> target v d"
    using evs by simp
  from a b c s m(2) m(3) m(4) t show ?thesis by (intro conjI)
qed

lemma stalled_tree_clear:
  "\<not> blocked Custom_ops d (stalled_tree d)" "\<not> blocked Mxfp4 d (stalled_tree d)"
  by (simp_all add: blocked_def stalled_tree_fs plain_file_access del: target.simps)

lemma stalled_tree_blocked: "blocked W8a8_utils d (stalled_tree d)"
  by (simp add: blocked_def stalled_tree_fs locked_file_access del: target.simps)

lemma stalled_tree_raised: "raised W8a8_utils d (stalled_tree d) = OSError (target W8a8_utils d)"
  by (simp add: raised_def stalled_tree_fs locked_file_def del: target.simps)

lemma capability_check_rewrite:
  "spec_rewrite (rules Mxfp4) ''if cap < (11, 0):'' = ''if cap <= (12, 1):''"
  by (simp add: spec_rewrite_def spec_apply_rule_def re_literal_old_pattern replace_def
      new_pattern_def)

lemma capability_check_clean: "CR \<notin> set ''if cap < (11, 0):''"
  by (simp add: CR_def)

lemma capability_check_unmarked:
  "\<not> already_patched Mxfp4 (universal_newlines (data (plain_file ''if cap < (11, 0):'')))"
  unfolding read_plain_file [OF capability_check_clean] by (simp add: mxfp4_marker_def)

lemma capability_check_patched:
  assumes "fs w (target Mxfp4 d) = Some (plain_file ''if cap < (11, 0):'')"
  shows "fst (patch Mxfp4 d w) = Inr True"
    "fs (snd (patch Mxfp4 d w)) (target Mxfp4 d) = Some (plain_file ''if cap <= (12, 1):'')"
proof -
  note p = patch_write [OF assms plain_file_access(1) capability_check_unmarked
      plain_file_access(2)]
  show "fst (patch Mxfp4 d w) = Inr True"
    by (simp only: p fst_conv)
  show "fs (snd (patch Mxfp4 d w)) (target Mxfp4 d) = Some (plain_file ''if cap <= (12, 1):'')"
    unfolding p read_plain_file [OF capability_check_clean] capability_check_rewrite
    by (simp add: plain_file_def)
qed

theorem open_error_ends_run_witness:
  "units = [Custom_ops, Mxfp4] @ W8a8_utils # [Matcher_utils]
   \<and> \<not> blocked Custom_ops ''/build/vllm'' (stalled_tree ''/build/vllm'')
   \<and> \<not> blocked Mxfp4 ''/build/vllm'' (stalled_tree ''/build/vllm'')
   \<and> blocked W8a8_utils ''/build/vllm'' (stalled_tree ''/build/vllm'')
   \<and> fst (main ''/build/vllm'' (stalled_tree ''/build/vllm''))
       = Inl (OSError (target W8a8_utils ''/build/vllm''))
   \<and> fst (exit_status ''/build/vllm'' (stalled_tree ''/build/vllm'')) = 1
   \<and> ''Summary:'' \<notin> set (stdout (snd (main ''/build/vllm'' (stalled_tree ''/build/vllm''))))
   \<and> fs (snd (main ''/build/vllm'' (stalled_tree ''/build/vllm''))) (target Mxfp4 ''/build/vllm'')
       = Some (plain_file ''if cap <= (12, 1):'')
   \<and> fs (snd (main ''/build/vllm'' (stalled_tree ''/build/vllm'')))
        (target W8a8_utils ''/build/vllm'') = Some (locked_file ''import torch'')
   \<and> fs (snd (main ''/build/vllm'' (stalled_tree ''/build/vllm'')))
        (target Matcher_utils ''/build/vllm'') = Some (plain_file ''import torch'')"
proof -
  let ?d = "''/build/vllm''"
  let ?w = "stalled_tree ?d"
  have split: "units = [Custom_ops, Mxfp4] @ W8a8_utils # [Matcher_utils]"
    by (simp add: units_def)
  have clear: "\<forall>v \<in> set [Custom_ops, Mxfp4]. \<not> blocked v ?d ?w"
    using stalled_tree_clear by simp
  note run = open_error_ends_run [OF split clear stalled_tree_blocked]
  from run have "fst (main ?d ?w) = Inl (raised W8a8_utils ?d ?w)"
    by (rule conjunct1)
  then have a: "fst (main ?d ?w) = Inl (OSError (target W8a8_utils ?d))"
    by (simp only: stalled_tree_raised)
  from run have b: "fst (exit_status ?d ?w) = 1"
    by (elim conjE)
  from run have "''Summary:'' \<notin> set (drop (length (stdout ?w)) (stdout (snd (main ?d ?w))))"
    by (elim conjE)
  moreover have "stdout ?w = []"
    by (simp add: stalled_tree_def world_of_def)
  ultimately have c: "''Summary:'' \<notin> set (stdout (snd (main ?d ?w)))"
    by simp
  from run have "\<forall>v \<in> set [Custom_ops, Mxfp4].
      fs (snd (main ?d ?w)) (target v ?d) = fs (snd (patch v ?d ?w)) (target v ?d)"
    by (elim conjE)
  then have "fs (snd (main ?d ?w)) (target Mxfp4 ?d) = fs (snd (patch Mxfp4 ?d ?w)) (target Mxfp4 ?d)"
    by simp
  also have "\<dots> = Some (plain_file ''if cap <= (12, 1):'')"
    by (rule capability_check_patched(2)) (simp add: stalled_tree_fs del: target.simps)
  finally have e: "fs (snd (main ?d ?w)) (target Mxfp4 ?d) = Some (plain_file ''if cap <= (12, 1):'')" .
  from run have "fs (snd (main ?d ?w)) (target W8a8_utils ?d) = fs ?w (target W8a8_utils ?d)"
    by (elim conjE)
  then have f: "fs (snd (main ?d ?w)) (target W8a8_utils ?d) = Some (locked_file ''import torch'')"
    by (simp add: stalled_tree_fs del: target.simps)
  from run have "\<forall>v \<in> set [Matcher_utils].
      fs (snd (main ?d ?w)) (target v ?d) = fs ?w (target v ?d)"
    by (elim conjE)
  then have "fs (snd (main ?d ?w)) (target Matcher_utils ?d) = fs ?w (target Matcher_utils ?d)"
    by simp
  then have g: "fs (snd (main ?d ?w)) (target Matcher_utils ?d) = Some (plain_file ''import torch'')"
    by (simp add: stalled_tree_fs del: target.simps)
  from split stalled_tree_clear stalled_tree_blocked a b c e f g show ?thesis
    by (intro conjI)
qed

text \<open>
  The claim as stated has the remaining units run after the failure. In \<open>locked_tree\<close> the
  first unit raises; the second, called on the same tree by itself, rewrites its file and
  returns \<open>True\<close>; but in the run of \<^verbatim>\<open>main\<close> it is never called: its file keeps the old
  text, the trace of the whole run is empty, and nothing is printed after the banner.
\<close>

lemma locked_tree_main:
  "main d (locked_tree d) = (Inl (OSError (target Custom_ops d)), banner d (locked_tree d))"
proof -
  have "fs (banner d (locked_tree d)) (target Custom_ops d) = Some (locked_file ''import torch'')"
    by (simp add: banner_same locked_tree_fs del: target.simps)
  from patch_unreadable [OF this locked_file_access]
  have "patch Custom_ops d (banner d (locked_tree d)) =
      (Inl (OSError (target Custom_ops d)), banner d (locked_tree d))"
    by (simp add: locked_file_def)
  then show ?thesis
    by (simp add: main_run units_def del: target.simps patch.simps)
qed

theorem open_error_skips_later_units:
  "fst (patch Custom_ops ''/build/vllm'' (locked_tree ''/build/vllm''))
     = Inl (OSError (target Custom_ops ''/build/vllm''))
   \<and> fst (patch Mxfp4 ''/build/vllm'' (locked_tree ''/build/vllm'')) = Inr True
   \<and> fs (snd (patch Mxfp4 ''/build/vllm'' (locked_tree ''/build/vllm'')))
        (target Mxfp4 ''/build/vllm'') = Some (plain_file ''if cap <= (12, 1):'')
   \<and> fst (main ''/build/vllm'' (locked_tree ''/build/vllm''))
     = Inl (OSError (target Custom_ops ''/build/vllm''))
   \<and> fs (snd (main ''/build/vllm'' (locked_tree ''/build/vllm'')))
        (target Mxfp4 ''/build/vllm'') = Some (plain_file ''if cap < (11, 0):'')
   \<and> trace (snd (main ''/build/vllm'' (locked_tree ''/build/vllm''))) = []
   \<and> stdout (snd (main ''/build/vllm'' (locked_tree ''/build/vllm'')))
     = stdout (banner ''/build/vllm'' (locked_tree ''/build/vllm''))"
proof -
  let ?d = "''/build/vllm''"
  have mx: "fs (locked_tree ?d) (target Mxfp4 ?d) = Some (plain_file ''if cap < (11, 0):'')"
    by (simp add: locked_tree_fs del: target.simps)
  have "fs (locked_tree ?d) (target Custom_ops ?d) = Some (locked_file ''import torch'')"
    by (simp add: locked_tree_fs del: target.simps)
  from patch_unreadable [OF this locked_file_access]
  have a: "fst (patch Custom_ops ?d (locked_tree ?d)) = Inl (OSError (target Custom_ops ?d))"
    by (simp add: locked_file_def)
  have b: "fst (patch Mxfp4 ?d (locked_tree ?d)) = Inr True"
    by (rule capability_check_patched(1) [OF mx])
  have c: "fs (snd (patch Mxfp4 ?d (locked_tree ?d))) (target Mxfp4 ?d) =
      Some (plain_file ''if cap <= (12, 1):'')"
    by (rule capability_check_patched(2) [OF mx])
  have d: "fst (main ?d (locked_tree ?d)) = Inl (OSError (target Custom_ops ?d))"
    by (simp only: locked_tree_main fst_conv)
  have e: "fs (snd (main ?d (locked_tree ?d))) (target Mxfp4 ?d) =
      Some (plain_file ''if cap < (11, 0):'')"
    by (simp only: locked_tree_main snd_conv banner_same mx)
  have f: "trace (snd (main ?d (locked_tree ?d))) = []"
    by (simp only: locked_tree_main snd_conv banner_same) (simp add: locked_tree_def world_of_def)
  have g: "stdout (snd (main ?d (locked_tree ?d))) = stdout (banner ?d (locked_tree ?d))"
    by (simp only: locked_tree_main snd_conv)
  from a b c d e f g show ?thesis by (intro conjI)
qed

end
